theory Spec2Isabelle
  imports Complex_Main
begin

section \<open>Triparific tools: stamp collage and flag grid\<close>

text \<open>
  A shallow embedding of \<^verbatim>\<open>functions/main.py\<close>, the consolidated module; the
  command-line variants under \<^verbatim>\<open>src/triparific_tools\<close> carry the same helpers.

  \<^item> Python integers are \<^typ>\<open>int\<close>, tuples are products, strings are \<^typ>\<open>string\<close> (ASCII).
  \<^item> Python floats are exact rationals: rounding errors of the float arithmetic are not
    modelled.
  \<^item> An exception is the left summand of a sum. Whatever a function changes outside its own
    variables (the random generator, the bucket) is a \<open>world\<close> that it takes and returns,
    also when it raises.
  \<^item> Pillow's operations are modelled by the size and mode of their result and by the
    checks that make them raise, as in its current releases; pixels are kept as a
    description of the operations that produced them.
  \<^item> The transport to and from the bucket, and the PNG encoding, are taken to succeed.
\<close>

subsection \<open>Configuration constants\<close>

definition CANVAS_WIDTH :: int where "CANVAS_WIDTH = 2000"
definition CANVAS_HEIGHT :: int where "CANVAS_HEIGHT = 2000"
definition AVOID_OVERLAP :: bool where "AVOID_OVERLAP = True"
definition OVERLAP_RETRIES :: nat where "OVERLAP_RETRIES = 15"

subsection \<open>Bounding boxes\<close>

type_synonym box = "int \<times> int \<times> int \<times> int"

text \<open>\<^verbatim>\<open>_boxes_overlap(a, b)\<close>: both tuples are unpacked as \<open>(x, y, w, h)\<close>.\<close>

definition boxes_overlap :: "box \<Rightarrow> box \<Rightarrow> bool" where
  "boxes_overlap a b =
     (case a of (ax, ay, aw, ah) \<Rightarrow>
      case b of (bx, by, bw, bh) \<Rightarrow>
        \<not> (ax + aw \<le> bx \<or> bx + bw \<le> ax \<or> ay + ah \<le> by \<or> by + bh \<le> ay))"

subsection \<open>Exceptions\<close>

text \<open>
  Every exception that can leave the modelled functions. \<open>ValueError\<close> carries its message:
  the module raises it with three different messages, and \<^verbatim>\<open>int()\<close>, \<^verbatim>\<open>random\<close> and
  Pillow raise it as well.
\<close>

datatype error =
    ValueError string
  | RuntimeError string
  | ZeroDivisionError
  | UnidentifiedImageError

text \<open>The spec's error kinds, as the module raises them.\<close>

definition InvalidInput :: error where
  "InvalidInput = ValueError ''No country codes provided.''"

definition NoAssetsResolved_stamps :: error where
  "NoAssetsResolved_stamps = ValueError ''No stamps found matching provided codes.''"

definition NoAssetsResolved_flags :: error where
  "NoAssetsResolved_flags = ValueError ''No images could be loaded. Check codes and FLAGS_PREFIX.''"

subsection \<open>Strings\<close>

text \<open>
  ASCII models of \<^verbatim>\<open>str.lower\<close>, \<^verbatim>\<open>str.strip\<close>, \<^verbatim>\<open>str.rstrip('/')\<close>, slicing
  \<^verbatim>\<open>s[i:j]\<close> with \<open>0 \<le> i \<le> j\<close>, and \<^verbatim>\<open>int(s, 16)\<close>.
\<close>

definition lower_char :: "char \<Rightarrow> char" where
  "lower_char c =
     (let n = (of_char c :: nat) in if 65 \<le> n \<and> n \<le> 90 then char_of (n + 32) else c)"

definition lower :: "string \<Rightarrow> string" where
  "lower s = map lower_char s"

definition is_space :: "char \<Rightarrow> bool" where
  "is_space c = (let n = (of_char c :: nat) in (9 \<le> n \<and> n \<le> 13) \<or> (28 \<le> n \<and> n \<le> 32))"

definition strip :: "string \<Rightarrow> string" where
  "strip s = rev (dropWhile is_space (rev (dropWhile is_space s)))"

definition rstrip_slash :: "string \<Rightarrow> string" where
  "rstrip_slash s = rev (dropWhile (\<lambda>c. c = CHR ''/'') (rev s))"

definition slice :: "string \<Rightarrow> nat \<Rightarrow> nat \<Rightarrow> string" where
  "slice s i j = take (j - i) (drop i s)"

definition startswith :: "string \<Rightarrow> string \<Rightarrow> bool" where
  "startswith s p = (take (length p) s = p)"

definition hex_digit :: "char \<Rightarrow> nat option" where
  "hex_digit c =
     (let n = (of_char c :: nat) in
      if 48 \<le> n \<and> n \<le> 57 then Some (n - 48)
      else if 97 \<le> n \<and> n \<le> 102 then Some (n - 87)
      else if 65 \<le> n \<and> n \<le> 70 then Some (n - 55)
      else None)"

text \<open>Digits of a literal: single underscores may separate digits, none may end it.\<close>

fun hex_digits :: "nat \<Rightarrow> string \<Rightarrow> nat option" where
  "hex_digits acc [] = Some acc"
| "hex_digits acc (c # cs) =
     (if c = CHR ''_'' then
        (case cs of
           [] \<Rightarrow> None
         | d # _ \<Rightarrow> if hex_digit d = None then None else hex_digits acc cs)
      else
        (case hex_digit c of
           None \<Rightarrow> None
         | Some v \<Rightarrow> hex_digits (16 * acc + v) cs))"

definition invalid_literal :: "string \<Rightarrow> error" where
  "invalid_literal s =
     ValueError (''invalid literal for int() with base 16: '' @ [CHR 0x27] @ s @ [CHR 0x27])"

text \<open>
  \<^verbatim>\<open>int(s, 16)\<close>: surrounding whitespace is skipped, a sign and a \<^verbatim>\<open>0x\<close> prefix (with one
  underscore after it) are accepted, and at least one digit is required. The whitespace of
  the integer parser is tab, newline, vertical tab, form feed, carriage return and space:
  the separators \<open>0x1C\<close> to \<open>0x1F\<close>, which \<^verbatim>\<open>str.strip\<close> removes, are not skipped. The
  message of the error quotes the literal with single quotes, where Python prints its
  \<^verbatim>\<open>repr\<close>.
\<close>

definition is_int_space :: "char \<Rightarrow> bool" where
  "is_int_space c = (let n = (of_char c :: nat) in (9 \<le> n \<and> n \<le> 13) \<or> n = 32)"

definition int_strip :: "string \<Rightarrow> string" where
  "int_strip s = rev (dropWhile is_int_space (rev (dropWhile is_int_space s)))"

definition py_int16 :: "string \<Rightarrow> error + int" where
  "py_int16 s =
     (let t = int_strip s;
          neg = (case t of [] \<Rightarrow> False | c # _ \<Rightarrow> c = CHR ''-'');
          u = (case t of [] \<Rightarrow> [] | c # r \<Rightarrow> if c = CHR ''+'' \<or> c = CHR ''-'' then r else t);
          v = (case u of
                 a # b # r \<Rightarrow>
                   if a = CHR ''0'' \<and> (b = CHR ''x'' \<or> b = CHR ''X'')
                   then (case r of [] \<Rightarrow> r | c # r' \<Rightarrow> if c = CHR ''_'' then r' else r)
                   else u
               | _ \<Rightarrow> u)
      in if v = [] \<or> take 1 v = ''_'' then Inl (invalid_literal s)
         else (case hex_digits 0 v of
                 None \<Rightarrow> Inl (invalid_literal s)
               | Some n \<Rightarrow> Inr (if neg then - int n else int n)))"

subsection \<open>Background colour\<close>

type_synonym rgba = "int \<times> int \<times> int \<times> int"

text \<open>\<^verbatim>\<open>hex_to_rgba(col)\<close>; Python's \<^verbatim>\<open>None\<close> result is \<open>Inr None\<close>.\<close>

definition hex_to_rgba :: "string \<Rightarrow> error + rgba option" where
  "hex_to_rgba col =
     (if lower col = ''transparent'' then Inr None
      else if startswith col ''#'' \<and> (length col = 4 \<or> length col = 7) then
        (let col' = (if length col = 4
                     then ''#'' @ concat (map (\<lambda>c. [c, c]) (drop 1 col))
                     else col)
         in case py_int16 (slice col' 1 3) of
              Inl e \<Rightarrow> Inl e
            | Inr r \<Rightarrow>
                (case py_int16 (slice col' 3 5) of
                   Inl e \<Rightarrow> Inl e
                 | Inr g \<Rightarrow>
                     (case py_int16 (slice col' 5 7) of
                        Inl e \<Rightarrow> Inl e
                      | Inr b \<Rightarrow> Inr (Some (r, g, b, 255)))))
      else Inr (Some (255, 255, 255, 255)))"

text \<open>
  What the spec calls a well-formed hex colour: \<^verbatim>\<open>#\<close> followed by three or by six
  hexadecimal digits.
\<close>

definition well_formed_hex :: "string \<Rightarrow> bool" where
  "well_formed_hex col =
     (startswith col ''#'' \<and> (length col = 4 \<or> length col = 7)
      \<and> list_all (\<lambda>c. hex_digit c \<noteq> None) (drop 1 col))"

subsection \<open>Numbers\<close>

text \<open>
  Python floats are modelled by exact rationals. \<^verbatim>\<open>round(x)\<close> rounds half to even,
  \<^verbatim>\<open>int(x)\<close> truncates towards zero, \<^verbatim>\<open>a / b\<close> on integers raises on a zero divisor,
  and \<^verbatim>\<open>math.ceil(a / b)\<close> is the ceiling of the quotient.
\<close>

definition py_round :: "rat \<Rightarrow> int" where
  "py_round q =
     (let f = \<lfloor>q\<rfloor>; d = q - of_int f
      in if d < 1 / 2 then f else if 1 / 2 < d then f + 1 else if even f then f else f + 1)"

definition py_trunc :: "rat \<Rightarrow> int" where
  "py_trunc q = (if 0 \<le> q then \<lfloor>q\<rfloor> else \<lceil>q\<rceil>)"

definition truediv :: "int \<Rightarrow> int \<Rightarrow> error + rat" where
  "truediv a b = (if b = 0 then Inl ZeroDivisionError else Inr (of_int a / of_int b))"

subsection \<open>Images and the Pillow operations the module calls\<close>

text \<open>
  An image is its mode, its size and a symbolic description of its pixels: which operations
  produced them. Resampling, rotation and blending are not computed; their effect on the
  size, and the checks that make them raise, are.
\<close>

datatype mode = RGBA | RGB

type_synonym bytes = "nat list"

datatype raster =
    Decoded bytes
  | Solid rgba
  | Resized raster "int \<times> int"
  | Rotated raster rat
  | Over raster raster "int \<times> int"
  | Cropped raster box
  | Flattened raster

record image =
  img_mode :: mode
  width :: int
  height :: int
  pixels :: raster

text \<open>
  What the imaging library decides and the model does not compute: whether bytes decode
  (and to which size), the size of the bounding box of a rotated image, and the PNG
  encoding of an image.
\<close>

record pillow =
  decode :: "bytes \<Rightarrow> (int \<times> int) option"
  rotated_size :: "int \<times> int \<Rightarrow> rat \<Rightarrow> int \<times> int"
  png_encode :: "image \<Rightarrow> bytes"

text \<open>\<^verbatim>\<open>Image.open(io.BytesIO(b)).convert("RGBA")\<close>\<close>

definition Image_open_rgba :: "pillow \<Rightarrow> bytes \<Rightarrow> error + image" where
  "Image_open_rgba L b =
     (case decode L b of
        None \<Rightarrow> Inl UnidentifiedImageError
      | Some (w, h) \<Rightarrow> Inr \<lparr>img_mode = RGBA, width = w, height = h, pixels = Decoded b\<rparr>)"

text \<open>\<^verbatim>\<open>Image.new(mode, size, color)\<close>\<close>

definition Image_new :: "mode \<Rightarrow> int \<times> int \<Rightarrow> rgba \<Rightarrow> error + image" where
  "Image_new m sz color =
     (case sz of (w, h) \<Rightarrow>
        if w < 0 \<or> h < 0 then Inl (ValueError ''Width and height must be >= 0'')
        else Inr \<lparr>img_mode = m, width = w, height = h, pixels = Solid color\<rparr>)"

text \<open>\<^verbatim>\<open>img.resize(size, resample)\<close>: a copy when the size is unchanged.\<close>

definition resize :: "image \<Rightarrow> int \<times> int \<Rightarrow> error + image" where
  "resize img sz =
     (case sz of (w, h) \<Rightarrow>
        if (width img, height img) = (w, h) then Inr img
        else if w < 1 \<or> h < 1 then Inl (ValueError ''height and width must be > 0'')
        else Inr (img\<lparr>width := w, height := h, pixels := Resized (pixels img) (w, h)\<rparr>))"

text \<open>\<^verbatim>\<open>img.rotate(angle, resample, expand=True)\<close>\<close>

definition rotate_expand :: "pillow \<Rightarrow> image \<Rightarrow> rat \<Rightarrow> image" where
  "rotate_expand L img angle =
     (case rotated_size L (width img, height img) angle of (w, h) \<Rightarrow>
        img\<lparr>width := w, height := h, pixels := Rotated (pixels img) angle\<rparr>)"

text \<open>\<^verbatim>\<open>img.crop((left, top, right, bottom))\<close> and the messages of its two checks.\<close>

definition right_less_than_left :: string where
  "right_less_than_left = ''Coordinate 'right' is less than 'left'' @ [CHR 0x27]"

definition lower_less_than_upper :: string where
  "lower_less_than_upper = ''Coordinate 'lower' is less than 'upper'' @ [CHR 0x27]"

definition crop :: "image \<Rightarrow> box \<Rightarrow> error + image" where
  "crop img bx =
     (case bx of (x0, y0, x1, y1) \<Rightarrow>
        if x1 < x0 then Inl (ValueError right_less_than_left)
        else if y1 < y0 then Inl (ValueError lower_less_than_upper)
        else Inr (img\<lparr>width := x1 - x0, height := y1 - y0,
                       pixels := Cropped (pixels img) bx\<rparr>))"

text \<open>
  \<^verbatim>\<open>base.alpha_composite(im, dest)\<close>, the in-place method: the overlay is blended over the
  region of the base at \<open>dest\<close>; both images must be RGBA. The base keeps its size.
\<close>

definition alpha_composite :: "image \<Rightarrow> image \<Rightarrow> int \<times> int \<Rightarrow> error + image" where
  "alpha_composite base im dest =
     (if img_mode base \<noteq> RGBA \<or> img_mode im \<noteq> RGBA then Inl (ValueError ''image has wrong mode'')
      else Inr (base\<lparr>pixels := Over (pixels base) (pixels im) dest\<rparr>))"

text \<open>\<^verbatim>\<open>img.convert("RGB")\<close>\<close>

definition convert_rgb :: "image \<Rightarrow> image" where
  "convert_rgb img = img\<lparr>img_mode := RGB, pixels := Flattened (pixels img)\<rparr>"

subsection \<open>Flag tile normalizer\<close>

text \<open>
  \<^verbatim>\<open>make_uniform_tile_from_bytes(img_bytes, box_h, ratio_w_over_h, fit_mode)\<close>. Any
  \<open>fit_mode\<close> other than \<^verbatim>\<open>"pad"\<close> and \<^verbatim>\<open>"crop"\<close> takes the last branch, the stretch.
\<close>

definition make_uniform_tile_from_bytes ::
    "pillow \<Rightarrow> bytes \<Rightarrow> int \<Rightarrow> rat \<Rightarrow> string \<Rightarrow> error + image" where
  "make_uniform_tile_from_bytes L img_bytes box_h ratio_w_over_h fit_mode =
     (let box_w = py_round (ratio_w_over_h * of_int box_h) in
      case Image_open_rgba L img_bytes of
        Inl e \<Rightarrow> Inl e
      | Inr img \<Rightarrow>
          (let w = width img; h = height img in
           if fit_mode = ''pad'' then
             (case truediv box_w w of Inl e \<Rightarrow> Inl e | Inr sw \<Rightarrow>
              case truediv box_h h of Inl e \<Rightarrow> Inl e | Inr sh \<Rightarrow>
                (let scale = min sw sh;
                     new_w = max 1 (py_round (of_int w * scale));
                     new_h = max 1 (py_round (of_int h * scale))
                 in case resize img (new_w, new_h) of Inl e \<Rightarrow> Inl e | Inr img' \<Rightarrow>
                    case Image_new RGBA (box_w, box_h) (0, 0, 0, 0) of Inl e \<Rightarrow> Inl e | Inr tile \<Rightarrow>
                      (let x = (box_w - new_w) div 2;
                           y = (box_h - new_h) div 2
                       in alpha_composite tile img' (x, y))))
           else if fit_mode = ''crop'' then
             (case truediv box_w w of Inl e \<Rightarrow> Inl e | Inr sw \<Rightarrow>
              case truediv box_h h of Inl e \<Rightarrow> Inl e | Inr sh \<Rightarrow>
                (let scale = max sw sh;
                     new_w = max 1 (py_round (of_int w * scale));
                     new_h = max 1 (py_round (of_int h * scale))
                 in case resize img (new_w, new_h) of Inl e \<Rightarrow> Inl e | Inr img' \<Rightarrow>
                      (let left = max 0 ((new_w - box_w) div 2);
                           top' = max 0 ((new_h - box_h) div 2);
                           right = left + box_w;
                           bottom = top' + box_h
                       in crop img' (left, top', right, bottom))))
           else resize img (box_w, box_h)))"

text \<open>
  \<^verbatim>\<open>ImageOps.contain(image, size)\<close>: the image resized to fit within \<open>size\<close> with its
  aspect ratio kept.
\<close>

definition ImageOps_contain :: "image \<Rightarrow> int \<times> int \<Rightarrow> error + image" where
  "ImageOps_contain img sz =
     (case sz of (sw, sh) \<Rightarrow>
      case truediv (width img) (height img) of Inl e \<Rightarrow> Inl e | Inr im_ratio \<Rightarrow>
      case truediv sw sh of Inl e \<Rightarrow> Inl e | Inr dest_ratio \<Rightarrow>
        (if im_ratio \<noteq> dest_ratio then
           (if dest_ratio < im_ratio then
              (case truediv (height img) (width img) of Inl e \<Rightarrow> Inl e | Inr q \<Rightarrow>
                 resize img (sw, py_round (q * of_int sw)))
            else resize img (py_round (im_ratio * of_int sh), sh))
         else resize img (sw, sh)))"

subsection \<open>The process: configuration, random generator, clock, bucket\<close>

text \<open>The module's settings read from the environment.\<close>

record env =
  STAMP_BUCKET :: "string option"
  STAMPS_PREFIX :: string
  FLAGS_PREFIX :: string
  FLAGS_OUTPUT_PREFIX :: string

definition MIN_SCALE :: rat where "MIN_SCALE = 6 / 10"
definition MAX_SCALE :: rat where "MAX_SCALE = 12 / 10"
definition MAX_ROTATION_DEG :: rat where "MAX_ROTATION_DEG = 25"

text \<open>
  What a run reads and changes outside its own variables. The process-wide generator is the
  sequence of its raw outputs and a cursor; each call of \<^verbatim>\<open>random.random\<close> or
  \<^verbatim>\<open>random.randint\<close> consumes one. The bucket maps (bucket name, path) to the bytes
  stored there; \<open>uploads\<close> lists the upload calls made, oldest first.
\<close>

type_synonym store = "string \<times> string \<Rightarrow> bytes option"

record world =
  entropy :: "nat \<Rightarrow> int"
  drawn :: nat
  utcnow :: string
  blobs :: store
  uploads :: "(string \<times> string \<times> image) list"

definition next_raw :: "world \<Rightarrow> int \<times> world" where
  "next_raw W = (entropy W (drawn W), W\<lparr>drawn := Suc (drawn W)\<rparr>)"

text \<open>\<^verbatim>\<open>random.random()\<close>: a multiple of \<open>1 / 2 ^ 53\<close> in \<open>[0, 1)\<close>.\<close>

definition random_unit :: "world \<Rightarrow> rat \<times> world" where
  "random_unit W = (case next_raw W of (r, W') \<Rightarrow> (of_int (r mod 2 ^ 53) / 2 ^ 53, W'))"

text \<open>\<^verbatim>\<open>random.uniform(a, b)\<close>\<close>

definition uniform :: "rat \<Rightarrow> rat \<Rightarrow> world \<Rightarrow> rat \<times> world" where
  "uniform a b W = (case random_unit W of (u, W') \<Rightarrow> (a + (b - a) * u, W'))"

text \<open>\<^verbatim>\<open>random.randint(a, b)\<close>: an integer of \<open>[a, b]\<close>; raises on an empty range.\<close>

definition randint :: "int \<Rightarrow> int \<Rightarrow> world \<Rightarrow> (error + int) \<times> world" where
  "randint a b W =
     (if b < a then (Inl (ValueError ''empty range for randrange()''), W)
      else (case next_raw W of (r, W') \<Rightarrow> (Inr (a + r mod (b - a + 1)), W')))"

text \<open>\<^verbatim>\<open>random.choices(population, k=k)\<close>\<close>

fun choices :: "string \<Rightarrow> nat \<Rightarrow> world \<Rightarrow> string \<times> world" where
  "choices population 0 W = ([], W)"
| "choices population (Suc k) W =
     (case random_unit W of (u, W1) \<Rightarrow>
      case choices population k W1 of (rest, W2) \<Rightarrow>
        (population ! nat \<lfloor>u * of_nat (length population)\<rfloor> # rest, W2))"

definition ascii_lowercase_digits :: string where
  "ascii_lowercase_digits = ''abcdefghijklmnopqrstuvwxyz0123456789''"

text \<open>\<^verbatim>\<open>_random_filename(prefix)\<close>\<close>

definition random_filename :: "string \<Rightarrow> world \<Rightarrow> string \<times> world" where
  "random_filename prefix W =
     (let ts = utcnow W in
      case choices ascii_lowercase_digits 6 W of (rand, W') \<Rightarrow>
        (prefix @ ''_'' @ ts @ ''_'' @ rand @ ''.png'', W'))"

text \<open>\<^verbatim>\<open>_require_bucket()\<close>: an unset or empty variable raises.\<close>

definition require_bucket :: "env \<Rightarrow> error + string" where
  "require_bucket E =
     (case STAMP_BUCKET E of
        None \<Rightarrow> Inl (RuntimeError ''STAMP_BUCKET env var not set'')
      | Some b \<Rightarrow> if b = [] then Inl (RuntimeError ''STAMP_BUCKET env var not set'') else Inr b)"

text \<open>
  \<^verbatim>\<open>_save_canvas_to_gcs(canvas, filename, output_prefix)\<close>: the one place that writes to
  the bucket. Encoding and transport are taken to succeed.
\<close>

definition save_canvas_to_gcs ::
    "pillow \<Rightarrow> env \<Rightarrow> image \<Rightarrow> string \<Rightarrow> string \<Rightarrow> world \<Rightarrow> (error + string) \<times> world" where
  "save_canvas_to_gcs L E canvas filename output_prefix W =
     (case require_bucket E of
        Inl e \<Rightarrow> (Inl e, W)
      | Inr bucket_name \<Rightarrow>
          (let blob_path = rstrip_slash output_prefix @ ''/'' @ filename in
           (Inr (''gs://'' @ bucket_name @ ''/'' @ blob_path),
            W\<lparr>blobs := (blobs W)((bucket_name, blob_path) \<mapsto> png_encode L canvas),
              uploads := uploads W @ [(bucket_name, blob_path, canvas)]\<rparr>)))"

text \<open>The dictionary both pipelines return.\<close>

record composition =
  filename :: string
  gs_path :: string
  placed :: "string list"
  missing :: "string list"

subsection \<open>Passport stamp composition\<close>

text \<open>\<^verbatim>\<open>_random_transform(img)\<close>\<close>

definition random_transform :: "pillow \<Rightarrow> image \<Rightarrow> world \<Rightarrow> (error + image) \<times> world" where
  "random_transform L img W =
     (case uniform MIN_SCALE MAX_SCALE W of (scale, W1) \<Rightarrow>
        (let new_w = max 1 (py_trunc (of_int (width img) * scale));
             new_h = max 1 (py_trunc (of_int (height img) * scale))
         in case resize img (new_w, new_h) of
              Inl e \<Rightarrow> (Inl e, W1)
            | Inr img_scaled \<Rightarrow>
                (case uniform (- MAX_ROTATION_DEG) MAX_ROTATION_DEG W1 of (angle, W2) \<Rightarrow>
                   (Inr (rotate_expand L img_scaled angle), W2))))"

text \<open>
  The \<^verbatim>\<open>for\<close> loop of \<^verbatim>\<open>_choose_position\<close>, by the number of iterations left:
  \<open>Some\<close> position when a candidate is returned from inside the loop, \<open>None\<close> when the loop
  runs out.
\<close>

fun position_retries ::
    "nat \<Rightarrow> int \<Rightarrow> int \<Rightarrow> box list \<Rightarrow> world \<Rightarrow> (error + (int \<times> int) option) \<times> world" where
  "position_retries 0 img_w img_h placed_boxes W = (Inr None, W)"
| "position_retries (Suc n) img_w img_h placed_boxes W =
     (case randint 0 (max 0 (CANVAS_WIDTH - img_w)) W of
        (Inl e, W1) \<Rightarrow> (Inl e, W1)
      | (Inr x, W1) \<Rightarrow>
          (case randint 0 (max 0 (CANVAS_HEIGHT - img_h)) W1 of
             (Inl e, W2) \<Rightarrow> (Inl e, W2)
           | (Inr y, W2) \<Rightarrow>
               (if \<not> AVOID_OVERLAP \<or> \<not> list_ex (boxes_overlap (x, y, img_w, img_h)) placed_boxes
                then (Inr (Some (x, y)), W2)
                else position_retries n img_w img_h placed_boxes W2)))"

text \<open>\<^verbatim>\<open>_choose_position(img_w, img_h, placed_boxes)\<close>\<close>

definition choose_position ::
    "int \<Rightarrow> int \<Rightarrow> box list \<Rightarrow> world \<Rightarrow> (error + int \<times> int) \<times> world" where
  "choose_position img_w img_h placed_boxes W =
     (let retries = (if AVOID_OVERLAP then OVERLAP_RETRIES else 1) in
      case position_retries retries img_w img_h placed_boxes W of
        (Inl e, W1) \<Rightarrow> (Inl e, W1)
      | (Inr (Some pos), W1) \<Rightarrow> (Inr pos, W1)
      | (Inr None, W1) \<Rightarrow>
          (case randint 0 (max 0 (CANVAS_WIDTH - img_w)) W1 of
             (Inl e, W2) \<Rightarrow> (Inl e, W2)
           | (Inr x, W2) \<Rightarrow>
               (case randint 0 (max 0 (CANVAS_HEIGHT - img_h)) W2 of
                  (Inl e, W3) \<Rightarrow> (Inl e, W3)
                | (Inr y, W3) \<Rightarrow> (Inr (x, y), W3))))"

text \<open>\<^verbatim>\<open>_load_stamp_from_gcs(code)\<close>: \<open>Inr None\<close> when the object does not exist.\<close>

definition load_stamp_from_gcs :: "pillow \<Rightarrow> env \<Rightarrow> store \<Rightarrow> string \<Rightarrow> error + image option" where
  "load_stamp_from_gcs L E bucket code =
     (case require_bucket E of
        Inl e \<Rightarrow> Inl e
      | Inr bucket_name \<Rightarrow>
          (let filename = lower code @ ''-arrival.png'';
               blob_path = rstrip_slash (STAMPS_PREFIX E) @ ''/'' @ filename
           in case bucket (bucket_name, blob_path) of
                None \<Rightarrow> Inr None
              | Some img_bytes \<Rightarrow>
                  (case Image_open_rgba L img_bytes of
                     Inl e \<Rightarrow> Inl e
                   | Inr img \<Rightarrow>
                       (case ImageOps_contain img (width img, height img) of
                          Inl e \<Rightarrow> Inl e
                        | Inr img' \<Rightarrow> Inr (Some img')))))"

text \<open>
  The loop over the codes in \<^verbatim>\<open>compose_passport_stamps\<close>, with the four variables it
  updates: the canvas, \<open>placed_boxes\<close>, \<open>placed\<close> and \<open>missing\<close>.
\<close>

type_synonym stamp_state = "image \<times> box list \<times> string list \<times> string list"

fun stamp_loop ::
    "pillow \<Rightarrow> env \<Rightarrow> string list \<Rightarrow> stamp_state \<Rightarrow> world \<Rightarrow> (error + stamp_state) \<times> world" where
  "stamp_loop L E [] st W = (Inr st, W)"
| "stamp_loop L E (code # rest) (canvas, placed_boxes, placed_codes, missing_codes) W =
     (case load_stamp_from_gcs L E (blobs W) code of
        Inl e \<Rightarrow> (Inl e, W)
      | Inr None \<Rightarrow>
          stamp_loop L E rest (canvas, placed_boxes, placed_codes, missing_codes @ [code]) W
      | Inr (Some stamp) \<Rightarrow>
          (case random_transform L stamp W of
             (Inl e, W1) \<Rightarrow> (Inl e, W1)
           | (Inr transformed, W1) \<Rightarrow>
               (case choose_position (width transformed) (height transformed) placed_boxes W1 of
                  (Inl e, W2) \<Rightarrow> (Inl e, W2)
                | (Inr (x, y), W2) \<Rightarrow>
                    (case alpha_composite canvas transformed (x, y) of
                       Inl e \<Rightarrow> (Inl e, W2)
                     | Inr canvas' \<Rightarrow>
                         stamp_loop L E rest
                           (canvas',
                            placed_boxes @ [(x, y, width transformed, height transformed)],
                            placed_codes @ [code],
                            missing_codes) W2))))"

text \<open>\<^verbatim>\<open>[c.lower() for c in codes if c]\<close>\<close>

definition normalize_stamp_codes :: "string list \<Rightarrow> string list" where
  "normalize_stamp_codes codes = map lower (filter (\<lambda>c. c \<noteq> []) codes)"

text \<open>\<^verbatim>\<open>compose_passport_stamps(codes)\<close>\<close>

definition compose_passport_stamps ::
    "pillow \<Rightarrow> env \<Rightarrow> string list \<Rightarrow> world \<Rightarrow> (error + composition) \<times> world" where
  "compose_passport_stamps L E codes0 W =
     (let codes = normalize_stamp_codes codes0 in
      if codes = [] then (Inl InvalidInput, W)
      else
        (case Image_new RGBA (CANVAS_WIDTH, CANVAS_HEIGHT) (0, 0, 0, 0) of
           Inl e \<Rightarrow> (Inl e, W)
         | Inr canvas \<Rightarrow>
             (case stamp_loop L E codes (canvas, [], [], []) W of
                (Inl e, W1) \<Rightarrow> (Inl e, W1)
              | (Inr (canvas', placed_boxes, placed_codes, missing_codes), W1) \<Rightarrow>
                  (if placed_codes = [] then (Inl NoAssetsResolved_stamps, W1)
                   else
                     (case random_filename ''stamps'' W1 of (fname, W2) \<Rightarrow>
                        (case save_canvas_to_gcs L E canvas' fname (FLAGS_OUTPUT_PREFIX E) W2 of
                           (Inl e, W3) \<Rightarrow> (Inl e, W3)
                         | (Inr path, W3) \<Rightarrow>
                             (Inr \<lparr>filename = fname, gs_path = path,
                                   placed = placed_codes, missing = missing_codes\<rparr>, W3)))))))"

subsection \<open>Flag grid\<close>

text \<open>\<^verbatim>\<open>_load_flag_tile_from_gcs(code, tile_height, fit_mode)\<close>\<close>

definition load_flag_tile_from_gcs ::
    "pillow \<Rightarrow> env \<Rightarrow> store \<Rightarrow> string \<Rightarrow> int \<Rightarrow> string \<Rightarrow> error + image option" where
  "load_flag_tile_from_gcs L E bucket code tile_height fit_mode =
     (case require_bucket E of
        Inl e \<Rightarrow> Inl e
      | Inr bucket_name \<Rightarrow>
          (let flag_filename = lower code @ ''.png'';
               blob_path = rstrip_slash (FLAGS_PREFIX E) @ ''/'' @ flag_filename
           in case bucket (bucket_name, blob_path) of
                None \<Rightarrow> Inr None
              | Some img_bytes \<Rightarrow>
                  (case make_uniform_tile_from_bytes L img_bytes tile_height 2 fit_mode of
                     Inl e \<Rightarrow> Inl e
                   | Inr tile \<Rightarrow> Inr (Some tile))))"

text \<open>\<^verbatim>\<open>[c.strip().lower() for c in codes if c.strip()]\<close>\<close>

definition normalize_flag_codes :: "string list \<Rightarrow> string list" where
  "normalize_flag_codes codes = map (\<lambda>c. lower (strip c)) (filter (\<lambda>c. strip c \<noteq> []) codes)"

text \<open>The loading loop of \<^verbatim>\<open>build_flag_grid\<close>, with \<open>missing\<close> and \<open>tiles\<close>.\<close>

fun load_tiles ::
    "pillow \<Rightarrow> env \<Rightarrow> store \<Rightarrow> int \<Rightarrow> string \<Rightarrow> string list \<Rightarrow>
     string list \<times> (string \<times> image) list \<Rightarrow> error + string list \<times> (string \<times> image) list" where
  "load_tiles L E bucket tile_height fit_mode [] st = Inr st"
| "load_tiles L E bucket tile_height fit_mode (code # rest) (missing_codes, tiles) =
     (case load_flag_tile_from_gcs L E bucket code tile_height fit_mode of
        Inl e \<Rightarrow> Inl e
      | Inr None \<Rightarrow>
          load_tiles L E bucket tile_height fit_mode rest (missing_codes @ [code], tiles)
      | Inr (Some tile) \<Rightarrow>
          load_tiles L E bucket tile_height fit_mode rest (missing_codes, tiles @ [(code, tile)]))"

text \<open>
  The grid geometry of \<^verbatim>\<open>build_flag_grid\<close>, from the number of tiles, the requested
  columns and gap, and the size of the first tile: the effective columns, the rows, the
  effective gap and the canvas size. The divisor of \<^verbatim>\<open>math.ceil(len(tiles) / cols)\<close> is at
  least one.
\<close>

record geometry =
  g_cols :: int
  g_rows :: int
  g_gap :: int
  canvas_w :: int
  canvas_h :: int

definition grid_geometry :: "nat \<Rightarrow> int \<Rightarrow> int \<Rightarrow> int \<Rightarrow> int \<Rightarrow> geometry" where
  "grid_geometry n cols0 gap0 tile_w tile_h =
     (let cols = max 1 (min cols0 (int n));
          rows = \<lceil>(of_int (int n) / of_int cols :: rat)\<rceil>;
          gap = max 0 gap0
      in \<lparr>g_cols = cols, g_rows = rows, g_gap = gap,
          canvas_w = cols * tile_w + (cols - 1) * gap,
          canvas_h = rows * tile_h + (rows - 1) * gap\<rparr>)"

text \<open>Where the tile of index \<open>idx\<close> goes: the body of the pasting loop.\<close>

definition tile_position :: "geometry \<Rightarrow> int \<Rightarrow> int \<Rightarrow> nat \<Rightarrow> int \<times> int" where
  "tile_position G tile_w tile_h idx =
     (let r = int idx div g_cols G;
          c = int idx mod g_cols G;
          x = c * (tile_w + g_gap G);
          y = r * (tile_h + g_gap G)
      in (x, y))"

fun paste_tiles ::
    "geometry \<Rightarrow> int \<Rightarrow> int \<Rightarrow> image \<Rightarrow> nat \<Rightarrow> (string \<times> image) list \<Rightarrow> error + image" where
  "paste_tiles G tile_w tile_h canvas idx [] = Inr canvas"
| "paste_tiles G tile_w tile_h canvas idx ((code, tile) # rest) =
     (case alpha_composite canvas tile (tile_position G tile_w tile_h idx) of
        Inl e \<Rightarrow> Inl e
      | Inr canvas' \<Rightarrow> paste_tiles G tile_w tile_h canvas' (Suc idx) rest)"

text \<open>
  The canvas before any tile is pasted:
  \<^verbatim>\<open>Image.new("RGBA", (canvas_w, canvas_h), (0, 0, 0, 0) if bg_rgba is None else bg_rgba)\<close>.
\<close>

definition blank_canvas :: "geometry \<Rightarrow> rgba option \<Rightarrow> error + image" where
  "blank_canvas G bg_rgba =
     Image_new RGBA (canvas_w G, canvas_h G)
       (case bg_rgba of None \<Rightarrow> (0, 0, 0, 0) | Some c \<Rightarrow> c)"

text \<open>
  \<^verbatim>\<open>build_flag_grid\<close> from the grid geometry on, given the tiles that resolved (at least
  one) and the codes that did not.
\<close>

definition compose_grid ::
    "pillow \<Rightarrow> env \<Rightarrow> string list \<Rightarrow> (string \<times> image) list \<Rightarrow> int \<Rightarrow> int \<Rightarrow> string \<Rightarrow>
     world \<Rightarrow> (error + composition) \<times> world" where
  "compose_grid L E missing_codes tiles cols gap bg W =
     (let tile_w = width (snd (hd tiles));
          tile_h = height (snd (hd tiles));
          G = grid_geometry (length tiles) cols gap tile_w tile_h
      in case hex_to_rgba bg of
           Inl e \<Rightarrow> (Inl e, W)
         | Inr bg_rgba \<Rightarrow>
             (case blank_canvas G bg_rgba of
                Inl e \<Rightarrow> (Inl e, W)
              | Inr canvas0 \<Rightarrow>
                  (case paste_tiles G tile_w tile_h canvas0 0 tiles of
                     Inl e \<Rightarrow> (Inl e, W)
                   | Inr canvas \<Rightarrow>
                       (case random_filename ''flags'' W of (fname, W1) \<Rightarrow>
                          (case save_canvas_to_gcs L E
                                  (if bg_rgba = None then canvas else convert_rgb canvas)
                                  fname (FLAGS_OUTPUT_PREFIX E) W1 of
                             (Inl e, W2) \<Rightarrow> (Inl e, W2)
                           | (Inr path, W2) \<Rightarrow>
                               (Inr \<lparr>filename = fname, gs_path = path,
                                     placed = map fst tiles, missing = missing_codes\<rparr>, W2))))))"

text \<open>\<^verbatim>\<open>build_flag_grid(codes, cols, gap, tile_height, bg, fit_mode)\<close>\<close>

definition build_flag_grid ::
    "pillow \<Rightarrow> env \<Rightarrow> string list \<Rightarrow> int \<Rightarrow> int \<Rightarrow> int \<Rightarrow> string \<Rightarrow> string \<Rightarrow>
     world \<Rightarrow> (error + composition) \<times> world" where
  "build_flag_grid L E codes0 cols gap tile_height bg fit_mode W =
     (let codes = normalize_flag_codes codes0 in
      if codes = [] then (Inl InvalidInput, W)
      else
        (case load_tiles L E (blobs W) tile_height fit_mode codes ([], []) of
           Inl e \<Rightarrow> (Inl e, W)
         | Inr (missing_codes, tiles) \<Rightarrow>
             (if tiles = [] then (Inl NoAssetsResolved_flags, W)
              else compose_grid L E missing_codes tiles cols gap bg W)))"

subsection \<open>Vocabulary of the specification\<close>

text \<open>
  The \<open>k\<close>-th position (from zero) that a placement search started in \<open>W\<close> draws, as long
  as the search goes on: the \<open>x\<close> from the raw output at \<open>drawn W + 2k\<close>, the \<open>y\<close> from the
  next one, each reduced to its range by \<^verbatim>\<open>random.randint\<close>.
\<close>

definition candidate :: "int \<Rightarrow> int \<Rightarrow> world \<Rightarrow> nat \<Rightarrow> int \<times> int" where
  "candidate img_w img_h W k =
     (entropy W (drawn W + 2 * k) mod (max 0 (CANVAS_WIDTH - img_w) + 1),
      entropy W (drawn W + 2 * k + 1) mod (max 0 (CANVAS_HEIGHT - img_h) + 1))"

text \<open>The \<open>k\<close>-th position, taken as the box of the image, meets a placed box.\<close>

definition tried_overlaps :: "int \<Rightarrow> int \<Rightarrow> box list \<Rightarrow> world \<Rightarrow> nat \<Rightarrow> bool" where
  "tried_overlaps img_w img_h placed_boxes W k =
     (case candidate img_w img_h W k of (x, y) \<Rightarrow>
        list_ex (boxes_overlap (x, y, img_w, img_h)) placed_boxes)"

text \<open>Each of the first \<open>n\<close> positions meets a placed box.\<close>

definition all_tried_overlap :: "int \<Rightarrow> int \<Rightarrow> box list \<Rightarrow> world \<Rightarrow> nat \<Rightarrow> bool" where
  "all_tried_overlap img_w img_h placed_boxes W n =
     list_all (tried_overlaps img_w img_h placed_boxes W) [0..<n]"

text \<open>\<open>clamp(x, lo, hi)\<close> in the specification's words.\<close>

definition clamp :: "int \<Rightarrow> int \<Rightarrow> int \<Rightarrow> int" where
  "clamp x lo hi = (if x < lo then lo else if hi < x then hi else x)"

text \<open>
  A code resolves when its fetch yields an image, and is absent when the fetch reports
  that the object does not exist; a fetch that raises is neither.
\<close>

definition stamp_resolves :: "pillow \<Rightarrow> env \<Rightarrow> store \<Rightarrow> string \<Rightarrow> bool" where
  "stamp_resolves L E bucket code =
     (case load_stamp_from_gcs L E bucket code of Inr (Some img) \<Rightarrow> True | _ \<Rightarrow> False)"

definition stamp_absent :: "pillow \<Rightarrow> env \<Rightarrow> store \<Rightarrow> string \<Rightarrow> bool" where
  "stamp_absent L E bucket code = (load_stamp_from_gcs L E bucket code = Inr None)"

definition flag_resolves :: "pillow \<Rightarrow> env \<Rightarrow> store \<Rightarrow> int \<Rightarrow> string \<Rightarrow> string \<Rightarrow> bool" where
  "flag_resolves L E bucket tile_height fit_mode code =
     (case load_flag_tile_from_gcs L E bucket code tile_height fit_mode of
        Inr (Some tile) \<Rightarrow> True
      | _ \<Rightarrow> False)"

definition flag_absent :: "pillow \<Rightarrow> env \<Rightarrow> store \<Rightarrow> int \<Rightarrow> string \<Rightarrow> string \<Rightarrow> bool" where
  "flag_absent L E bucket tile_height fit_mode code =
     (load_flag_tile_from_gcs L E bucket code tile_height fit_mode = Inr None)"

text \<open>The canvas \<^verbatim>\<open>compose_passport_stamps\<close> starts from.\<close>

definition blank_stamp_canvas :: image where
  "blank_stamp_canvas =
     \<lparr>img_mode = RGBA, width = CANVAS_WIDTH, height = CANVAS_HEIGHT, pixels = Solid (0, 0, 0, 0)\<rparr>"

subsection \<open>Concrete collaborators for evaluating the model\<close>

text \<open>
  An imaging library whose decoder reads the size from a two-byte header, an environment
  with the bucket set, and a process whose bucket holds a stamp and a flag for the code
  \<^verbatim>\<open>au\<close> and whose generator yields \<open>0, 1, 2, \<dots>\<close>.
\<close>

definition example_pillow :: pillow where
  "example_pillow =
     \<lparr>decode = (\<lambda>b. case b of [w, h] \<Rightarrow> Some (int w, int h) | _ \<Rightarrow> None),
      rotated_size = (\<lambda>sz angle. case sz of (w, h) \<Rightarrow> (w + h, w + h)),
      png_encode = (\<lambda>img. [nat (width img), nat (height img)])\<rparr>"

definition example_env :: env where
  "example_env =
     \<lparr>STAMP_BUCKET = Some ''bucket'', STAMPS_PREFIX = ''passportStamps'',
      FLAGS_PREFIX = ''flags/png1000px'', FLAGS_OUTPUT_PREFIX = ''tshirt/flags''\<rparr>"

definition example_store :: store where
  "example_store =
     [(''bucket'', ''passportStamps/au-arrival.png'') \<mapsto> [300, 200],
      (''bucket'', ''flags/png1000px/au.png'') \<mapsto> [1000, 500]]"

definition example_world :: world where
  "example_world =
     \<lparr>entropy = (\<lambda>n. int n), drawn = 0, utcnow = ''20250101T000000Z'',
      blobs = example_store, uploads = []\<rparr>"

section \<open>Auxiliary facts\<close>

subsection \<open>Numbers and images\<close>

lemma py_round_of_int: "py_round (of_int n) = n"
  by (simp add: py_round_def)

lemma py_round_double: "py_round (2 * of_int n) = 2 * n"
proof -
  have "(2::rat) * of_int n = of_int (2 * n)" by simp
  then show ?thesis by (simp only: py_round_of_int)
qed

lemma resize_ok:
  assumes "1 \<le> w" "1 \<le> h"
  shows "\<exists>img'. resize img (w, h) = Inr img' \<and> width img' = w \<and> height img' = h
           \<and> img_mode img' = img_mode img"
  using assms by (auto simp: resize_def)

lemma Image_open_rgba_ok:
  "decode L b = Some (w, h) \<Longrightarrow>
   Image_open_rgba L b = Inr \<lparr>img_mode = RGBA, width = w, height = h, pixels = Decoded b\<rparr>"
  by (simp add: Image_open_rgba_def)

lemma py_round_nonpos: "q \<le> 0 \<Longrightarrow> py_round q \<le> 0"
proof -
  assume q: "q \<le> 0"
  have f: "\<lfloor>q\<rfloor> \<le> 0" using q by (simp add: floor_le_zero)
  show ?thesis
  proof (cases "\<lfloor>q\<rfloor> = 0")
    case True
    then have "q = 0" using q by (metis floor_le_zero floor_less_iff le_less_linear not_less of_int_0 order_antisym of_int_floor_le)
    then show ?thesis by (simp add: py_round_def)
  next
    case False
    then have "\<lfloor>q\<rfloor> + 1 \<le> 0" using f by linarith
    then show ?thesis using f by (simp add: py_round_def Let_def)
  qed
qed

lemma scaled_nonpos:
  assumes "s \<le> 0" "0 < w"
  shows "max 1 (py_round (of_int w * s)) = 1"
proof -
  have "of_int w * s \<le> 0" using assms by (simp add: mult_nonneg_nonpos)
  then have "py_round (of_int w * s) \<le> 0" by (rule py_round_nonpos)
  then show ?thesis by simp
qed

lemma resize_one:
  "\<exists>img'. resize img (1, 1) = Inr img' \<and> img_mode img' = img_mode img"
  using resize_ok [of 1 1 img] by auto

lemma resize_mode: "resize img sz = Inr img' \<Longrightarrow> img_mode img' = img_mode img"
  by (cases sz) (auto simp: resize_def split: if_splits)

lemma ImageOps_contain_mode:
  "ImageOps_contain img sz = Inr img' \<Longrightarrow> img_mode img' = img_mode img"
  by (cases sz) (auto simp: ImageOps_contain_def dest: resize_mode split: sum.splits if_splits)

lemma load_stamp_some:
  assumes "load_stamp_from_gcs L E st code = Inr (Some img)"
  shows "img_mode img = RGBA" and "\<exists>b. require_bucket E = Inr b"
  using assms
  by (auto simp: load_stamp_from_gcs_def Image_open_rgba_def Let_def
      dest!: ImageOps_contain_mode split: sum.splits option.splits prod.splits)

lemma alpha_composite_ok:
  assumes "img_mode base = RGBA" "img_mode im = RGBA"
  shows "\<exists>c. alpha_composite base im dest = Inr c \<and> img_mode c = RGBA
           \<and> width c = width base \<and> height c = height base"
  using assms by (simp add: alpha_composite_def)

subsection \<open>The random generator and the placement search\<close>

lemma randint_ok:
  "a \<le> b \<Longrightarrow>
   randint a b W = (Inr (a + entropy W (drawn W) mod (b - a + 1)), W\<lparr>drawn := Suc (drawn W)\<rparr>)"
  by (simp add: randint_def next_raw_def)

lemma draw_x:
  "randint 0 (max 0 (CANVAS_WIDTH - img_w)) W =
     (Inr (entropy W (drawn W) mod (max 0 (CANVAS_WIDTH - img_w) + 1)),
      W\<lparr>drawn := Suc (drawn W)\<rparr>)"
  using randint_ok [of 0 "max 0 (CANVAS_WIDTH - img_w)" W] by simp

lemma draw_y:
  "randint 0 (max 0 (CANVAS_HEIGHT - img_h)) W =
     (Inr (entropy W (drawn W) mod (max 0 (CANVAS_HEIGHT - img_h) + 1)),
      W\<lparr>drawn := Suc (drawn W)\<rparr>)"
  using randint_ok [of 0 "max 0 (CANVAS_HEIGHT - img_h)" W] by simp

lemma candidate_shift:
  "candidate img_w img_h (W\<lparr>drawn := Suc (Suc (drawn W))\<rparr>) k = candidate img_w img_h W (Suc k)"
  by (simp add: candidate_def)

lemma tried_overlaps_shift:
  "tried_overlaps img_w img_h bs (W\<lparr>drawn := Suc (Suc (drawn W))\<rparr>) k =
   tried_overlaps img_w img_h bs W (Suc k)"
  by (simp add: tried_overlaps_def candidate_shift)

lemma all_tried_overlap_iff:
  "all_tried_overlap img_w img_h bs W n \<longleftrightarrow> (\<forall>k<n. tried_overlaps img_w img_h bs W k)"
  by (auto simp: all_tried_overlap_def list_all_iff)

lemma position_retries_step:
  "position_retries (Suc n) img_w img_h bs W =
     (if tried_overlaps img_w img_h bs W 0
      then position_retries n img_w img_h bs (W\<lparr>drawn := Suc (Suc (drawn W))\<rparr>)
      else (Inr (Some (candidate img_w img_h W 0)), W\<lparr>drawn := Suc (Suc (drawn W))\<rparr>))"
  by (simp add: draw_x draw_y tried_overlaps_def candidate_def AVOID_OVERLAP_def)

lemma position_retries_exhausted:
  "all_tried_overlap img_w img_h bs W n \<Longrightarrow>
   position_retries n img_w img_h bs W = (Inr None, W\<lparr>drawn := drawn W + 2 * n\<rparr>)"
proof (induction n arbitrary: W)
  case 0
  show ?case by simp
next
  case (Suc n)
  let ?W = "W\<lparr>drawn := Suc (Suc (drawn W))\<rparr>"
  from Suc.prems have first: "tried_overlaps img_w img_h bs W 0"
    and rest: "all_tried_overlap img_w img_h bs ?W n"
    by (auto simp: all_tried_overlap_iff tried_overlaps_shift)
  show ?case
    by (simp only: position_retries_step first if_True Suc.IH [OF rest]) simp
qed

lemma position_retries_total:
  "\<exists>r d. position_retries n img_w img_h bs W = (Inr r, W\<lparr>drawn := d\<rparr>)"
proof (induction n arbitrary: W)
  case 0
  have "position_retries 0 img_w img_h bs W = (Inr None, W\<lparr>drawn := drawn W\<rparr>)" by simp
  then show ?case by blast
next
  case (Suc n)
  let ?W = "W\<lparr>drawn := Suc (Suc (drawn W))\<rparr>"
  show ?case
  proof (cases "tried_overlaps img_w img_h bs W 0")
    case True
    from Suc.IH [of ?W] obtain r d
      where "position_retries n img_w img_h bs ?W = (Inr r, ?W\<lparr>drawn := d\<rparr>)" by blast
    then have "position_retries (Suc n) img_w img_h bs W = (Inr r, W\<lparr>drawn := d\<rparr>)"
      using True by (simp only: position_retries_step if_True) simp
    then show ?thesis by blast
  next
    case False
    then show ?thesis by (simp only: position_retries_step if_False) blast
  qed
qed

lemma choose_position_total:
  "\<exists>pos d. choose_position img_w img_h bs W = (Inr pos, W\<lparr>drawn := d\<rparr>)"
proof -
  obtain r d where r: "position_retries OVERLAP_RETRIES img_w img_h bs W = (Inr r, W\<lparr>drawn := d\<rparr>)"
    using position_retries_total by blast
  show ?thesis
  proof (cases r)
    case None
    then have "choose_position img_w img_h bs W =
        (Inr (entropy W d mod (max 0 (CANVAS_WIDTH - img_w) + 1),
              entropy W (Suc d) mod (max 0 (CANVAS_HEIGHT - img_h) + 1)),
         W\<lparr>drawn := Suc (Suc d)\<rparr>)"
      using r by (simp add: choose_position_def AVOID_OVERLAP_def draw_x draw_y)
    then show ?thesis by blast
  next
    case (Some pos)
    then have "choose_position img_w img_h bs W = (Inr pos, W\<lparr>drawn := d\<rparr>)"
      using r by (simp add: choose_position_def AVOID_OVERLAP_def)
    then show ?thesis by blast
  qed
qed

lemma choose_position_exhausted:
  assumes "all_tried_overlap img_w img_h bs W OVERLAP_RETRIES"
  shows "choose_position img_w img_h bs W =
           (Inr (candidate img_w img_h W OVERLAP_RETRIES),
            W\<lparr>drawn := drawn W + 2 * OVERLAP_RETRIES + 2\<rparr>)"
  using position_retries_exhausted [OF assms]
  by (simp add: choose_position_def AVOID_OVERLAP_def draw_x draw_y candidate_def)

lemma example_all_overlap:
  "all_tried_overlap 100 100 [(0, 0, 2000, 2000)] example_world OVERLAP_RETRIES"
  by code_simp

lemma uniform_world: "snd (uniform a b W) = W\<lparr>drawn := Suc (drawn W)\<rparr>"
  by (simp add: uniform_def random_unit_def next_raw_def)

lemma random_transform_ok:
  "\<exists>t. random_transform L img W = (Inr t, W\<lparr>drawn := Suc (Suc (drawn W))\<rparr>) \<and> img_mode t = img_mode img"
proof -
  obtain scale W1 where u1: "uniform MIN_SCALE MAX_SCALE W = (scale, W1)" by (cases "uniform MIN_SCALE MAX_SCALE W")
  then have W1: "W1 = W\<lparr>drawn := Suc (drawn W)\<rparr>" using uniform_world [of MIN_SCALE MAX_SCALE W] by simp
  obtain angle W2 where u2: "uniform (- MAX_ROTATION_DEG) MAX_ROTATION_DEG W1 = (angle, W2)"
    by (cases "uniform (- MAX_ROTATION_DEG) MAX_ROTATION_DEG W1")
  then have W2: "W2 = W\<lparr>drawn := Suc (Suc (drawn W))\<rparr>"
    using uniform_world [of "- MAX_ROTATION_DEG" MAX_ROTATION_DEG W1] by (simp add: W1)
  define nw where "nw = max 1 (py_trunc (of_int (width img) * scale))"
  define nh where "nh = max 1 (py_trunc (of_int (height img) * scale))"
  obtain img' where r: "resize img (nw, nh) = Inr img'" "img_mode img' = img_mode img"
    using resize_ok [of nw nh img] by (auto simp: nw_def nh_def)
  have "random_transform L img W = (Inr (rotate_expand L img' angle), W2)"
    by (simp add: random_transform_def u1 u2 Let_def nw_def [symmetric] nh_def [symmetric] r(1))
  moreover have "img_mode (rotate_expand L img' angle) = img_mode img"
    by (simp add: rotate_expand_def r(2) split: prod.splits)
  ultimately show ?thesis by (simp add: W2)
qed

subsection \<open>The stamp loop\<close>

lemma stamp_resolves_iff:
  "stamp_resolves L E st code \<longleftrightarrow> (\<exists>img. load_stamp_from_gcs L E st code = Inr (Some img))"
  by (auto simp: stamp_resolves_def split: sum.splits option.splits)

lemma stamp_absent_not_resolves: "stamp_absent L E st code \<Longrightarrow> \<not> stamp_resolves L E st code"
  by (simp add: stamp_absent_def stamp_resolves_def)

lemma stamp_loop_absent:
  assumes "stamp_absent L E (blobs W) code"
  shows "stamp_loop L E (code # rest) (canvas, bs, pl, mi) W =
           stamp_loop L E rest (canvas, bs, pl, mi @ [code]) W"
  using assms by (simp add: stamp_absent_def)

lemma stamp_loop_resolves:
  assumes "stamp_resolves L E (blobs W) code" "img_mode canvas = RGBA"
  shows "\<exists>canvas' b d. stamp_loop L E (code # rest) (canvas, bs, pl, mi) W =
           stamp_loop L E rest (canvas', bs @ [b], pl @ [code], mi) (W\<lparr>drawn := d\<rparr>)
           \<and> img_mode canvas' = RGBA"
proof -
  obtain stamp where l: "load_stamp_from_gcs L E (blobs W) code = Inr (Some stamp)"
    using assms(1) by (auto simp: stamp_resolves_iff)
  then have sm: "img_mode stamp = RGBA" by (rule load_stamp_some)
  obtain t where t: "random_transform L stamp W = (Inr t, W\<lparr>drawn := Suc (Suc (drawn W))\<rparr>)"
    "img_mode t = RGBA" using random_transform_ok [of L stamp W] sm by auto
  obtain pos d where p: "choose_position (width t) (height t) bs (W\<lparr>drawn := Suc (Suc (drawn W))\<rparr>) =
      (Inr pos, W\<lparr>drawn := d\<rparr>)"
    using choose_position_total [of "width t" "height t" bs "W\<lparr>drawn := Suc (Suc (drawn W))\<rparr>"] by auto
  obtain x y where pos: "pos = (x, y)" by (cases pos)
  obtain c where c: "alpha_composite canvas t (x, y) = Inr c" "img_mode c = RGBA"
    using alpha_composite_ok [OF assms(2) t(2)] by blast
  have "stamp_loop L E (code # rest) (canvas, bs, pl, mi) W =
      stamp_loop L E rest (c, bs @ [(x, y, width t, height t)], pl @ [code], mi) (W\<lparr>drawn := d\<rparr>)"
    by (simp add: l t(1) p pos c(1))
  then show ?thesis using c(2) by blast
qed

declare stamp_loop.simps(2) [simp del]

lemma stamp_loop_partition:
  assumes "\<forall>c \<in> set codes. stamp_resolves L E (blobs W) c \<or> stamp_absent L E (blobs W) c"
    and "img_mode canvas = RGBA"
  shows "\<exists>canvas' bs' d.
           stamp_loop L E codes (canvas, bs, pl, mi) W =
             (Inr (canvas', bs',
                   pl @ filter (stamp_resolves L E (blobs W)) codes,
                   mi @ filter (stamp_absent L E (blobs W)) codes),
              W\<lparr>drawn := d\<rparr>)"
  using assms
proof (induction codes arbitrary: canvas bs pl mi W)
  case Nil
  have "stamp_loop L E [] (canvas, bs, pl, mi) W = (Inr (canvas, bs, pl, mi), W\<lparr>drawn := drawn W\<rparr>)"
    by simp
  then have "\<exists>d. stamp_loop L E [] (canvas, bs, pl, mi) W = (Inr (canvas, bs, pl, mi), W\<lparr>drawn := d\<rparr>)"
    by blast
  then show ?case by simp
next
  case (Cons code rest)
  show ?case
  proof (cases "stamp_resolves L E (blobs W) code")
    case True
    then have na: "\<not> stamp_absent L E (blobs W) code" using stamp_absent_not_resolves by blast
    obtain canvas' b d where s: "stamp_loop L E (code # rest) (canvas, bs, pl, mi) W =
           stamp_loop L E rest (canvas', bs @ [b], pl @ [code], mi) (W\<lparr>drawn := d\<rparr>)"
      and m: "img_mode canvas' = RGBA"
      using stamp_loop_resolves [OF True Cons.prems(2)] by blast
    have "\<forall>c \<in> set rest. stamp_resolves L E (blobs (W\<lparr>drawn := d\<rparr>)) c
        \<or> stamp_absent L E (blobs (W\<lparr>drawn := d\<rparr>)) c"
      using Cons.prems(1) by simp
    from Cons.IH [OF this m, of "bs @ [b]" "pl @ [code]" mi]
    show ?thesis using True na by (simp add: s)
  next
    case False
    then have ab: "stamp_absent L E (blobs W) code" using Cons.prems(1) by simp
    have "\<forall>c \<in> set rest. stamp_resolves L E (blobs W) c \<or> stamp_absent L E (blobs W) c"
      using Cons.prems(1) by simp
    from Cons.IH [OF this Cons.prems(2), of bs pl "mi @ [code]"]
    show ?thesis using False ab by (simp add: stamp_loop_absent [OF ab])
  qed
qed

lemma stamp_loop_world:
  "\<exists>d. snd (stamp_loop L E codes st W) = W\<lparr>drawn := d\<rparr>"
proof (induction codes arbitrary: st W)
  case Nil
  have "snd (stamp_loop L E [] st W) = W\<lparr>drawn := drawn W\<rparr>" by simp
  then show ?case by blast
next
  case (Cons code rest)
  obtain canvas bs pl mi where st: "st = (canvas, bs, pl, mi)" by (cases st)
  show ?case
  proof (cases "load_stamp_from_gcs L E (blobs W) code")
    case (Inl e)
    then have "snd (stamp_loop L E (code # rest) st W) = W\<lparr>drawn := drawn W\<rparr>"
      by (simp add: st stamp_loop.simps(2))
    then show ?thesis by blast
  next
    case (Inr opt)
    show ?thesis
    proof (cases opt)
      case None
      then show ?thesis using Inr Cons.IH [of "(canvas, bs, pl, mi @ [code])" W]
        by (simp add: st stamp_loop.simps(2))
    next
      case (Some stamp)
      obtain t where t: "random_transform L stamp W = (Inr t, W\<lparr>drawn := Suc (Suc (drawn W))\<rparr>)"
        using random_transform_ok [of L stamp W] by auto
      obtain pos d where p: "choose_position (width t) (height t) bs (W\<lparr>drawn := Suc (Suc (drawn W))\<rparr>) =
          (Inr pos, W\<lparr>drawn := d\<rparr>)"
        using choose_position_total [of "width t" "height t" bs "W\<lparr>drawn := Suc (Suc (drawn W))\<rparr>"] by auto
      obtain x y where pos: "pos = (x, y)" by (cases pos)
      show ?thesis
      proof (cases "alpha_composite canvas t (x, y)")
        case (Inl e)
        then have "snd (stamp_loop L E (code # rest) st W) = W\<lparr>drawn := d\<rparr>"
          using Inr Some by (simp add: st stamp_loop.simps(2) t p pos)
        then show ?thesis by blast
      next
        case (Inr c)
        from Cons.IH [of "(c, bs @ [(x, y, width t, height t)], pl @ [code], mi)" "W\<lparr>drawn := d\<rparr>"]
        show ?thesis using \<open>load_stamp_from_gcs L E (blobs W) code = Inr opt\<close> Some Inr
          by (simp add: st stamp_loop.simps(2) t p pos)
      qed
    qed
  qed
qed

subsection \<open>Writing the result\<close>

lemma random_unit_world: "snd (random_unit W) = W\<lparr>drawn := Suc (drawn W)\<rparr>"
  by (simp add: random_unit_def next_raw_def)

lemma choices_world: "\<exists>r d. choices pop k W = (r, W\<lparr>drawn := d\<rparr>)"
proof (induction k arbitrary: W)
  case 0
  have "choices pop 0 W = ([], W\<lparr>drawn := drawn W\<rparr>)" by simp
  then show ?case by blast
next
  case (Suc k)
  obtain u where u: "random_unit W = (u, W\<lparr>drawn := Suc (drawn W)\<rparr>)"
    using random_unit_world [of W] by (cases "random_unit W") simp
  from Suc.IH [of "W\<lparr>drawn := Suc (drawn W)\<rparr>"] obtain r d
    where "choices pop k (W\<lparr>drawn := Suc (drawn W)\<rparr>) = (r, W\<lparr>drawn := d\<rparr>)" by auto
  then have "choices pop (Suc k) W =
      (pop ! nat \<lfloor>u * of_nat (length pop)\<rfloor> # r, W\<lparr>drawn := d\<rparr>)"
    by (simp add: u)
  then show ?case by blast
qed

lemma random_filename_world: "\<exists>f d. random_filename p W = (f, W\<lparr>drawn := d\<rparr>)"
proof -
  obtain r d where "choices ascii_lowercase_digits 6 W = (r, W\<lparr>drawn := d\<rparr>)"
    using choices_world by blast
  then have "random_filename p W = (p @ ''_'' @ utcnow W @ ''_'' @ r @ ''.png'', W\<lparr>drawn := d\<rparr>)"
    by (simp add: random_filename_def)
  then show ?thesis by blast
qed

lemma save_canvas_ok:
  assumes "require_bucket E = Inr b"
  shows "save_canvas_to_gcs L E canvas f pre W =
     (Inr (''gs://'' @ b @ ''/'' @ rstrip_slash pre @ ''/'' @ f),
      W\<lparr>blobs := (blobs W)((b, rstrip_slash pre @ ''/'' @ f) \<mapsto> png_encode L canvas),
        uploads := uploads W @ [(b, rstrip_slash pre @ ''/'' @ f, canvas)]\<rparr>)"
  using assms by (simp add: save_canvas_to_gcs_def Let_def)

lemma save_canvas_fail:
  "require_bucket E = Inl e \<Longrightarrow> save_canvas_to_gcs L E canvas f pre W = (Inl e, W)"
  by (simp add: save_canvas_to_gcs_def)

subsection \<open>Outcome of a stamp run\<close>

lemma compose_passport_stamps_empty:
  "normalize_stamp_codes codes = [] \<Longrightarrow>
   compose_passport_stamps L E codes W = (Inl InvalidInput, W)"
  by (simp add: compose_passport_stamps_def)

lemma compose_passport_stamps_loop_error:
  assumes "normalize_stamp_codes codes \<noteq> []"
    and "stamp_loop L E (normalize_stamp_codes codes) (blank_stamp_canvas, [], [], []) W = (Inl e, W1)"
  shows "compose_passport_stamps L E codes W = (Inl e, W1)"
  using assms
  by (simp add: compose_passport_stamps_def Image_new_def CANVAS_WIDTH_def CANVAS_HEIGHT_def
      blank_stamp_canvas_def)

lemma compose_passport_stamps_none_placed:
  assumes "normalize_stamp_codes codes \<noteq> []"
    and "stamp_loop L E (normalize_stamp_codes codes) (blank_stamp_canvas, [], [], []) W =
           (Inr (canvas, bs, [], mi), W1)"
  shows "compose_passport_stamps L E codes W = (Inl NoAssetsResolved_stamps, W1)"
  using assms
  by (simp add: compose_passport_stamps_def Image_new_def CANVAS_WIDTH_def CANVAS_HEIGHT_def
      blank_stamp_canvas_def)

lemma compose_passport_stamps_placed:
  assumes "normalize_stamp_codes codes \<noteq> []"
    and "stamp_loop L E (normalize_stamp_codes codes) (blank_stamp_canvas, [], [], []) W =
           (Inr (canvas, bs, pl, mi), W1)"
    and "pl \<noteq> []"
    and "random_filename ''stamps'' W1 = (f, W2)"
  shows "compose_passport_stamps L E codes W =
           (case save_canvas_to_gcs L E canvas f (FLAGS_OUTPUT_PREFIX E) W2 of
              (Inl e, W3) \<Rightarrow> (Inl e, W3)
            | (Inr path, W3) \<Rightarrow>
                (Inr \<lparr>filename = f, gs_path = path, placed = pl, missing = mi\<rparr>, W3))"
  using assms
  by (simp add: compose_passport_stamps_def Image_new_def CANVAS_WIDTH_def CANVAS_HEIGHT_def
      blank_stamp_canvas_def)

lemma stamp_loop_all_absent:
  "\<forall>c \<in> set codes. stamp_absent L E (blobs W) c \<Longrightarrow>
   stamp_loop L E codes (canvas, bs, pl, mi) W = (Inr (canvas, bs, pl, mi @ codes), W)"
proof (induction codes arbitrary: mi)
  case Nil
  show ?case by simp
next
  case (Cons code rest)
  then have a: "stamp_absent L E (blobs W) code" by simp
  show ?case using Cons by (simp add: stamp_loop_absent [OF a])
qed

lemma compose_passport_stamps_outcome:
  "(\<exists>e d. compose_passport_stamps L E codes W = (Inl e, W\<lparr>drawn := d\<rparr>))
   \<or> (\<exists>canvas bs pl mi W1 f b d.
         stamp_loop L E (normalize_stamp_codes codes) (blank_stamp_canvas, [], [], []) W =
           (Inr (canvas, bs, pl, mi), W1)
         \<and> normalize_stamp_codes codes \<noteq> [] \<and> pl \<noteq> [] \<and> require_bucket E = Inr b
         \<and> compose_passport_stamps L E codes W =
             (Inr \<lparr>filename = f,
                   gs_path = ''gs://'' @ b @ ''/'' @ rstrip_slash (FLAGS_OUTPUT_PREFIX E) @ ''/'' @ f,
                   placed = pl, missing = mi\<rparr>,
              W\<lparr>drawn := d,
                blobs := (blobs W)((b, rstrip_slash (FLAGS_OUTPUT_PREFIX E) @ ''/'' @ f)
                           \<mapsto> png_encode L canvas),
                uploads := uploads W @ [(b, rstrip_slash (FLAGS_OUTPUT_PREFIX E) @ ''/'' @ f, canvas)]\<rparr>))"
proof (cases "normalize_stamp_codes codes = []")
  case True
  have "compose_passport_stamps L E codes W = (Inl InvalidInput, W\<lparr>drawn := drawn W\<rparr>)"
    using compose_passport_stamps_empty [OF True] by simp
  then show ?thesis by blast
next
  case ne: False
  let ?loop = "stamp_loop L E (normalize_stamp_codes codes) (blank_stamp_canvas, [], [], []) W"
  obtain d1 where w1: "snd ?loop = W\<lparr>drawn := d1\<rparr>" using stamp_loop_world by blast
  show ?thesis
  proof (cases "fst ?loop")
    case (Inl e)
    then have "?loop = (Inl e, W\<lparr>drawn := d1\<rparr>)" using w1 by (metis prod.collapse)
    from compose_passport_stamps_loop_error [OF ne this] show ?thesis by blast
  next
    case (Inr st)
    obtain canvas bs pl mi where st: "st = (canvas, bs, pl, mi)" by (cases st)
    have loop: "?loop = (Inr (canvas, bs, pl, mi), W\<lparr>drawn := d1\<rparr>)"
      using Inr w1 st by (metis prod.collapse)
    show ?thesis
    proof (cases "pl = []")
      case True
      from compose_passport_stamps_none_placed [OF ne loop [unfolded True]] show ?thesis by blast
    next
      case pl: False
      obtain f d2 where f: "random_filename ''stamps'' (W\<lparr>drawn := d1\<rparr>) = (f, W\<lparr>drawn := d2\<rparr>)"
        using random_filename_world [of "''stamps''" "W\<lparr>drawn := d1\<rparr>"] by auto
      note c = compose_passport_stamps_placed [OF ne loop pl f]
      show ?thesis
      proof (cases "require_bucket E")
        case (Inl e)
        then have "compose_passport_stamps L E codes W = (Inl e, W\<lparr>drawn := d2\<rparr>)"
          using c by (simp add: save_canvas_fail)
        then show ?thesis by blast
      next
        case (Inr b)
        have "compose_passport_stamps L E codes W =
             (Inr \<lparr>filename = f,
                   gs_path = ''gs://'' @ b @ ''/'' @ rstrip_slash (FLAGS_OUTPUT_PREFIX E) @ ''/'' @ f,
                   placed = pl, missing = mi\<rparr>,
              W\<lparr>drawn := d2,
                blobs := (blobs W)((b, rstrip_slash (FLAGS_OUTPUT_PREFIX E) @ ''/'' @ f)
                           \<mapsto> png_encode L canvas),
                uploads := uploads W @ [(b, rstrip_slash (FLAGS_OUTPUT_PREFIX E) @ ''/'' @ f, canvas)]\<rparr>)"
          using c by (simp add: save_canvas_ok [OF Inr])
        with loop ne pl Inr show ?thesis by blast
      qed
    qed
  qed
qed

subsection \<open>Grid geometry and background\<close>

lemma clamp_cols: "1 \<le> n \<Longrightarrow> max 1 (min c n) = clamp c 1 n"
  by (auto simp: clamp_def)

lemma ceiling_quotient_bounds:
  assumes "0 < (d::int)"
  shows "((a + d - 1) div d - 1) * d < a" and "a \<le> ((a + d - 1) div d) * d"
proof -
  define q where "q = (a + d - 1) div d"
  define m where "m = (a + d - 1) mod d"
  have e: "q * d + m = a + d - 1" by (simp add: q_def m_def)
  have b: "0 \<le> m" "m < d" using assms by (simp_all add: m_def)
  have s: "(q - 1) * d = q * d - d" by (simp add: algebra_simps)
  show "((a + d - 1) div d - 1) * d < a" using e b s unfolding q_def [symmetric] by linarith
  show "a \<le> ((a + d - 1) div d) * d" using e b unfolding q_def [symmetric] by linarith
qed

lemma ceiling_quotient:
  assumes "0 < (d::int)"
  shows "\<lceil>(of_int a / of_int d :: rat)\<rceil> = (a + d - 1) div d"
proof (rule ceiling_unique)
  define q where "q = (a + d - 1) div d"
  have d: "(0::rat) < of_int d" using assms by simp
  have lo: "(q - 1) * d < a" and hi: "a \<le> q * d"
    using ceiling_quotient_bounds [OF assms, of a] by (simp_all add: q_def)
  have "(of_int ((q - 1) * d) :: rat) < of_int a" using lo by (simp only: of_int_less_iff)
  then have "(of_int q - 1) * (of_int d :: rat) < of_int a" by simp
  then show "of_int ((a + d - 1) div d) - 1 < (of_int a / of_int d :: rat)"
    using d unfolding q_def [symmetric] by (simp add: pos_less_divide_eq)
  have "(of_int a :: rat) \<le> of_int (q * d)" using hi by (simp only: of_int_le_iff)
  then have "(of_int a :: rat) \<le> of_int q * of_int d" by simp
  then show "(of_int a / of_int d :: rat) \<le> of_int ((a + d - 1) div d)"
    using d unfolding q_def [symmetric] by (simp add: pos_divide_le_eq)
qed

lemma grid_geometry_eq:
  assumes "1 \<le> n"
  shows "grid_geometry n c gap tile_w tile_h =
     \<lparr>g_cols = clamp c 1 (int n),
      g_rows = (int n + clamp c 1 (int n) - 1) div clamp c 1 (int n),
      g_gap = max 0 gap,
      canvas_w = clamp c 1 (int n) * tile_w + (clamp c 1 (int n) - 1) * max 0 gap,
      canvas_h = ((int n + clamp c 1 (int n) - 1) div clamp c 1 (int n)) * tile_h
                 + ((int n + clamp c 1 (int n) - 1) div clamp c 1 (int n) - 1) * max 0 gap\<rparr>"
proof -
  have n: "1 \<le> int n" using assms by simp
  have c: "max 1 (min c (int n)) = clamp c 1 (int n)" by (rule clamp_cols [OF n])
  have pos: "0 < clamp c 1 (int n)" using n by (auto simp: clamp_def)
  show ?thesis
    unfolding grid_geometry_def Let_def c
    by (simp only: ceiling_quotient [OF pos])
qed

lemma clamp_pos: "1 \<le> n \<Longrightarrow> 1 \<le> clamp c 1 n \<and> clamp c 1 n \<le> n"
  by (auto simp: clamp_def)

lemma grid_geometry_gap: "gap < 0 \<Longrightarrow> grid_geometry n c gap tw th = grid_geometry n c 0 tw th"
  by (simp add: grid_geometry_def)

lemma compose_grid_gap:
  "gap < 0 \<Longrightarrow> compose_grid L E mi tiles c gap bg W = compose_grid L E mi tiles c 0 bg W"
  by (simp only: compose_grid_def grid_geometry_gap)

lemma build_flag_grid_gap:
  "gap < 0 \<Longrightarrow> build_flag_grid L E codes c gap th bg fm W = build_flag_grid L E codes c 0 th bg fm W"
  by (simp only: build_flag_grid_def compose_grid_gap)

lemma hex_digit_not_special:
  assumes "hex_digit a = Some x"
  shows "\<not> is_int_space a" "a \<noteq> CHR ''+''" "a \<noteq> CHR ''-''" "a \<noteq> CHR ''_''"
    "a \<noteq> CHR ''x''" "a \<noteq> CHR ''X''" "x < 16"
  using assms
  by (auto simp: hex_digit_def is_int_space_def Let_def split: if_splits)

lemma py_int16_two_digits:
  assumes a: "hex_digit a = Some x" and b: "hex_digit b = Some y"
  shows "py_int16 [a, b] = Inr (int (16 * x + y))"
proof -
  note na = hex_digit_not_special [OF a] and nb = hex_digit_not_special [OF b]
  have s: "int_strip [a, b] = [a, b]" using na(1) nb(1) by (simp add: int_strip_def)
  show ?thesis
    using na nb a b by (simp add: py_int16_def s Let_def)
qed

lemma hex_long_value:
  assumes "hex_digit a1 = Some x1" "hex_digit a2 = Some x2"
    "hex_digit b1 = Some y1" "hex_digit b2 = Some y2"
    "hex_digit c1 = Some z1" "hex_digit c2 = Some z2"
  shows "hex_to_rgba [CHR ''#'', a1, a2, b1, b2, c1, c2] =
     Inr (Some (int (16 * x1 + x2), int (16 * y1 + y2), int (16 * z1 + z2), 255))"
  using py_int16_two_digits [OF assms(1,2)] py_int16_two_digits [OF assms(3,4)]
    py_int16_two_digits [OF assms(5,6)]
  by (simp add: hex_to_rgba_def lower_def startswith_def slice_def)

lemma hex_short_value:
  assumes "hex_digit a = Some x" "hex_digit b = Some y" "hex_digit c = Some z"
  shows "hex_to_rgba [CHR ''#'', a, b, c] = Inr (Some (int (17 * x), int (17 * y), int (17 * z), 255))"
  using py_int16_two_digits [OF assms(1,1)] py_int16_two_digits [OF assms(2,2)]
    py_int16_two_digits [OF assms(3,3)]
  by (simp add: hex_to_rgba_def lower_def startswith_def slice_def)

lemma hex_short_long:
  "hex_to_rgba [CHR ''#'', a, b, c] = hex_to_rgba [CHR ''#'', a, a, b, b, c, c]"
  by (simp add: hex_to_rgba_def lower_def startswith_def)

lemma hex_transparent: "lower bg = ''transparent'' \<Longrightarrow> hex_to_rgba bg = Inr None"
  by (simp add: hex_to_rgba_def)

lemma blank_canvas_transparent:
  "blank_canvas G None = Inr canvas \<Longrightarrow>
   canvas = \<lparr>img_mode = RGBA, width = canvas_w G, height = canvas_h G, pixels = Solid (0, 0, 0, 0)\<rparr>"
  by (auto simp: blank_canvas_def Image_new_def split: if_splits)

subsection \<open>Outcome of a flag grid run, and the stamp run by cases\<close>

lemma alpha_composite_size:
  "alpha_composite base im dest = Inr c \<Longrightarrow> width c = width base \<and> height c = height base"
  by (auto simp: alpha_composite_def split: if_splits)

lemma paste_tiles_size:
  "paste_tiles G tw th canvas idx tiles = Inr canvas' \<Longrightarrow>
   width canvas' = width canvas \<and> height canvas' = height canvas"
proof (induction tiles arbitrary: canvas idx)
  case Nil
  then show ?case by simp
next
  case (Cons t tiles)
  obtain code tile where t: "t = (code, tile)" by (cases t)
  from Cons.prems obtain c where c: "alpha_composite canvas tile (tile_position G tw th idx) = Inr c"
    and r: "paste_tiles G tw th c (Suc idx) tiles = Inr canvas'"
    by (auto simp: t split: sum.splits)
  from Cons.IH [OF r] alpha_composite_size [OF c] show ?case by simp
qed

lemma blank_canvas_size:
  "blank_canvas G bg = Inr c \<Longrightarrow> width c = canvas_w G \<and> height c = canvas_h G"
  by (auto simp: blank_canvas_def Image_new_def split: if_splits)

lemma convert_rgb_size: "width (convert_rgb img) = width img \<and> height (convert_rgb img) = height img"
  by (simp add: convert_rgb_def)

lemma load_tiles_all_absent:
  "\<forall>c \<in> set codes. flag_absent L E st th fm c \<Longrightarrow>
   load_tiles L E st th fm codes (mi, ts) = Inr (mi @ codes, ts)"
proof (induction codes arbitrary: mi)
  case Nil
  show ?case by simp
next
  case (Cons code rest)
  then have "load_flag_tile_from_gcs L E st code th fm = Inr None" by (simp add: flag_absent_def)
  then show ?case using Cons by simp
qed

lemma compose_grid_outcome:
  "(\<exists>e d. compose_grid L E mi tiles c gap bg W = (Inl e, W\<lparr>drawn := d\<rparr>))
   \<or> (\<exists>bg_rgba canvas0 canvas f b d.
         hex_to_rgba bg = Inr bg_rgba
         \<and> blank_canvas (grid_geometry (length tiles) c gap (width (snd (hd tiles))) (height (snd (hd tiles)))) bg_rgba = Inr canvas0
         \<and> paste_tiles (grid_geometry (length tiles) c gap (width (snd (hd tiles))) (height (snd (hd tiles)))) (width (snd (hd tiles))) (height (snd (hd tiles))) canvas0 0 tiles = Inr canvas
         \<and> require_bucket E = Inr b
         \<and> compose_grid L E mi tiles c gap bg W =
             (Inr \<lparr>filename = f,
                   gs_path = ''gs://'' @ b @ ''/'' @ rstrip_slash (FLAGS_OUTPUT_PREFIX E) @ ''/'' @ f,
                   placed = map fst tiles, missing = mi\<rparr>,
              W\<lparr>drawn := d,
                blobs := (blobs W)((b, rstrip_slash (FLAGS_OUTPUT_PREFIX E) @ ''/'' @ f)
                   \<mapsto> png_encode L (if bg_rgba = None then canvas else convert_rgb canvas)),
                uploads := uploads W @
                   [(b, rstrip_slash (FLAGS_OUTPUT_PREFIX E) @ ''/'' @ f,
                     if bg_rgba = None then canvas else convert_rgb canvas)]\<rparr>))"
proof -
  let ?tw = "width (snd (hd tiles))" and ?th = "height (snd (hd tiles))"
  let ?G = "grid_geometry (length tiles) c gap (width (snd (hd tiles))) (height (snd (hd tiles)))"
  have same: "W = W\<lparr>drawn := drawn W\<rparr>" by simp
  show ?thesis
  proof (cases "hex_to_rgba bg")
    case (Inl e)
    then have "compose_grid L E mi tiles c gap bg W = (Inl e, W\<lparr>drawn := drawn W\<rparr>)"
      by (simp add: compose_grid_def)
    then show ?thesis by blast
  next
    case bg: (Inr bg_rgba)
    show ?thesis
    proof (cases "blank_canvas ?G bg_rgba")
      case (Inl e)
      then have "compose_grid L E mi tiles c gap bg W = (Inl e, W\<lparr>drawn := drawn W\<rparr>)"
        using bg by (simp add: compose_grid_def)
      then show ?thesis by blast
    next
      case c0: (Inr canvas0)
      show ?thesis
      proof (cases "paste_tiles ?G ?tw ?th canvas0 0 tiles")
        case (Inl e)
        then have "compose_grid L E mi tiles c gap bg W = (Inl e, W\<lparr>drawn := drawn W\<rparr>)"
          using bg c0 by (simp add: compose_grid_def)
        then show ?thesis by blast
      next
        case cv: (Inr canvas)
        obtain f d where f: "random_filename ''flags'' W = (f, W\<lparr>drawn := d\<rparr>)"
          using random_filename_world by blast
        show ?thesis
        proof (cases "require_bucket E")
          case (Inl e)
          then have "compose_grid L E mi tiles c gap bg W = (Inl e, W\<lparr>drawn := d\<rparr>)"
            using bg c0 cv f by (simp add: compose_grid_def save_canvas_fail)
          then show ?thesis by blast
        next
          case b: (Inr b)
          have "compose_grid L E mi tiles c gap bg W =
             (Inr \<lparr>filename = f,
                   gs_path = ''gs://'' @ b @ ''/'' @ rstrip_slash (FLAGS_OUTPUT_PREFIX E) @ ''/'' @ f,
                   placed = map fst tiles, missing = mi\<rparr>,
              W\<lparr>drawn := d,
                blobs := (blobs W)((b, rstrip_slash (FLAGS_OUTPUT_PREFIX E) @ ''/'' @ f)
                   \<mapsto> png_encode L (if bg_rgba = None then canvas else convert_rgb canvas)),
                uploads := uploads W @
                   [(b, rstrip_slash (FLAGS_OUTPUT_PREFIX E) @ ''/'' @ f,
                     if bg_rgba = None then canvas else convert_rgb canvas)]\<rparr>)"
            using bg c0 cv f by (simp add: compose_grid_def save_canvas_ok [OF b])
          with bg c0 cv b show ?thesis by blast
        qed
      qed
    qed
  qed
qed

lemma compose_grid_failure:
  assumes "compose_grid L E mi tiles c gap bg W = (Inl e, W')"
  shows "uploads W' = uploads W \<and> blobs W' = blobs W"
  using compose_grid_outcome [of L E mi tiles c gap bg W] assms by auto

lemma compose_grid_success:
  assumes "compose_grid L E mi tiles c gap bg W = (Inr res, W')"
  shows "\<exists>b p img. uploads W' = uploads W @ [(b, p, img)]
           \<and> blobs W' = (blobs W)((b, p) \<mapsto> png_encode L img)
           \<and> width img = canvas_w (grid_geometry (length tiles) c gap
                                    (width (snd (hd tiles))) (height (snd (hd tiles))))
           \<and> height img = canvas_h (grid_geometry (length tiles) c gap
                                    (width (snd (hd tiles))) (height (snd (hd tiles))))
           \<and> placed res = map fst tiles \<and> missing res = mi"
proof -
  let ?G = "grid_geometry (length tiles) c gap (width (snd (hd tiles))) (height (snd (hd tiles)))"
  from compose_grid_outcome [of L E mi tiles c gap bg W] assms
  obtain bg_rgba canvas0 canvas f b d where
    c0: "blank_canvas ?G bg_rgba = Inr canvas0"
    and cv: "paste_tiles ?G (width (snd (hd tiles))) (height (snd (hd tiles))) canvas0 0 tiles = Inr canvas"
    and r: "res = \<lparr>filename = f,
                   gs_path = ''gs://'' @ b @ ''/'' @ rstrip_slash (FLAGS_OUTPUT_PREFIX E) @ ''/'' @ f,
                   placed = map fst tiles, missing = mi\<rparr>"
    and w: "W' = W\<lparr>drawn := d,
                blobs := (blobs W)((b, rstrip_slash (FLAGS_OUTPUT_PREFIX E) @ ''/'' @ f)
                   \<mapsto> png_encode L (if bg_rgba = None then canvas else convert_rgb canvas)),
                uploads := uploads W @
                   [(b, rstrip_slash (FLAGS_OUTPUT_PREFIX E) @ ''/'' @ f,
                     if bg_rgba = None then canvas else convert_rgb canvas)]\<rparr>"
    by auto
  let ?img = "if bg_rgba = None then canvas else convert_rgb canvas"
  have "width canvas = canvas_w ?G \<and> height canvas = canvas_h ?G"
    using paste_tiles_size [OF cv] blank_canvas_size [OF c0] by simp
  then have sz: "width ?img = canvas_w ?G \<and> height ?img = canvas_h ?G"
    by (simp add: convert_rgb_size)
  show ?thesis
    using sz by (intro exI [of _ b] exI [of _ "rstrip_slash (FLAGS_OUTPUT_PREFIX E) @ ''/'' @ f"]
        exI [of _ ?img]) (simp add: r w)
qed

lemma build_flag_grid_empty:
  "normalize_flag_codes codes = [] \<Longrightarrow>
   build_flag_grid L E codes c gap th bg fm W = (Inl InvalidInput, W)"
  by (simp add: build_flag_grid_def)

lemma build_flag_grid_all_absent:
  assumes "normalize_flag_codes codes \<noteq> []"
    and "\<forall>code \<in> set (normalize_flag_codes codes). flag_absent L E (blobs W) th fm code"
  shows "build_flag_grid L E codes c gap th bg fm W = (Inl NoAssetsResolved_flags, W)"
  using assms by (simp add: build_flag_grid_def load_tiles_all_absent)

lemma build_flag_grid_cases:
  "(\<exists>e. build_flag_grid L E codes c gap th bg fm W = (Inl e, W))
   \<or> (\<exists>mi tiles. load_tiles L E (blobs W) th fm (normalize_flag_codes codes) ([], []) = Inr (mi, tiles)
         \<and> tiles \<noteq> []
         \<and> build_flag_grid L E codes c gap th bg fm W = compose_grid L E mi tiles c gap bg W)"
  by (auto simp: build_flag_grid_def Let_def split: sum.splits)

lemma build_flag_grid_failure:
  assumes "build_flag_grid L E codes c gap th bg fm W = (Inl e, W')"
  shows "uploads W' = uploads W \<and> blobs W' = blobs W"
proof -
  from build_flag_grid_cases [of L E codes c gap th bg fm W] assms
  consider "W' = W" | mi tiles where "compose_grid L E mi tiles c gap bg W = (Inl e, W')"
    by auto
  then show ?thesis
  proof cases
    case 1
    then show ?thesis by simp
  next
    case 2
    then show ?thesis by (rule compose_grid_failure)
  qed
qed

lemma build_flag_grid_success:
  assumes "build_flag_grid L E codes c gap th bg fm W = (Inr res, W')"
  shows "\<exists>b p img. uploads W' = uploads W @ [(b, p, img)]
           \<and> blobs W' = (blobs W)((b, p) \<mapsto> png_encode L img)"
proof -
  from build_flag_grid_cases [of L E codes c gap th bg fm W] assms
  obtain mi tiles where "compose_grid L E mi tiles c gap bg W = (Inr res, W')" by auto
  from compose_grid_success [OF this] show ?thesis by blast
qed

lemma compose_passport_stamps_failure:
  assumes "compose_passport_stamps L E codes W = (Inl e, W')"
  shows "uploads W' = uploads W \<and> blobs W' = blobs W"
  using compose_passport_stamps_outcome [of L E codes W] assms by auto

lemma compose_passport_stamps_success:
  assumes "compose_passport_stamps L E codes W = (Inr res, W')"
  shows "\<exists>canvas bs W1 b p.
           stamp_loop L E (normalize_stamp_codes codes) (blank_stamp_canvas, [], [], []) W =
             (Inr (canvas, bs, placed res, missing res), W1)
           \<and> uploads W' = uploads W @ [(b, p, canvas)]
           \<and> blobs W' = (blobs W)((b, p) \<mapsto> png_encode L canvas)"
  using compose_passport_stamps_outcome [of L E codes W] assms by auto

lemma compose_passport_stamps_all_absent:
  assumes "normalize_stamp_codes codes \<noteq> []"
    and "\<forall>code \<in> set (normalize_stamp_codes codes). stamp_absent L E (blobs W) code"
  shows "compose_passport_stamps L E codes W = (Inl NoAssetsResolved_stamps, W)"
  using compose_passport_stamps_none_placed [OF assms(1) stamp_loop_all_absent [OF assms(2)]]
  by simp

lemma compose_passport_stamps_all_resolve:
  assumes ne: "normalize_stamp_codes codes \<noteq> []"
    and all: "\<forall>code \<in> set (normalize_stamp_codes codes). stamp_resolves L E (blobs W) code"
  shows "\<exists>res W'. compose_passport_stamps L E codes W = (Inr res, W')
           \<and> missing res = [] \<and> placed res = normalize_stamp_codes codes"
proof -
  let ?cs = "normalize_stamp_codes codes"
  have m: "img_mode blank_stamp_canvas = RGBA" by (simp add: blank_stamp_canvas_def)
  have fr: "filter (stamp_resolves L E (blobs W)) ?cs = ?cs" using all by simp
  have fa: "filter (stamp_absent L E (blobs W)) ?cs = []"
    using all stamp_absent_not_resolves by (auto simp: filter_empty_conv)
  from stamp_loop_partition [of ?cs L E W blank_stamp_canvas "[]" "[]" "[]"] all m
  obtain canvas bs d where loop:
    "stamp_loop L E ?cs (blank_stamp_canvas, [], [], []) W = (Inr (canvas, bs, ?cs, []), W\<lparr>drawn := d\<rparr>)"
    by (auto simp: fr fa)
  obtain f d2 where f: "random_filename ''stamps'' (W\<lparr>drawn := d\<rparr>) = (f, W\<lparr>drawn := d2\<rparr>)"
    using random_filename_world [of "''stamps''" "W\<lparr>drawn := d\<rparr>"] by auto
  obtain c0 where "c0 \<in> set ?cs" using ne by (cases ?cs) auto
  then obtain img where "load_stamp_from_gcs L E (blobs W) c0 = Inr (Some img)"
    using all by (auto simp: stamp_resolves_iff)
  then obtain b where b: "require_bucket E = Inr b" using load_stamp_some(2) by blast
  show ?thesis
    using compose_passport_stamps_placed [OF ne loop ne f]
    by (simp add: save_canvas_ok [OF b])
qed

lemma build_flag_grid_success_canvas:
  assumes "build_flag_grid L E codes c gap th bg fm W = (Inr res, W')"
  shows "\<exists>mi tiles bg_rgba canvas0 canvas b p.
           load_tiles L E (blobs W) th fm (normalize_flag_codes codes) ([], []) = Inr (mi, tiles)
           \<and> blank_canvas (grid_geometry (length tiles) c gap
                 (width (snd (hd tiles))) (height (snd (hd tiles)))) bg_rgba = Inr canvas0
           \<and> paste_tiles (grid_geometry (length tiles) c gap
                 (width (snd (hd tiles))) (height (snd (hd tiles))))
                 (width (snd (hd tiles))) (height (snd (hd tiles))) canvas0 0 tiles = Inr canvas
           \<and> placed res = map fst tiles \<and> missing res = mi
           \<and> uploads W' = uploads W @ [(b, p, if bg_rgba = None then canvas else convert_rgb canvas)]"
proof -
  from build_flag_grid_cases [of L E codes c gap th bg fm W] assms
  obtain mi tiles where l: "load_tiles L E (blobs W) th fm (normalize_flag_codes codes) ([], []) = Inr (mi, tiles)"
    and g: "compose_grid L E mi tiles c gap bg W = (Inr res, W')" by auto
  from compose_grid_outcome [of L E mi tiles c gap bg W] g
  obtain bg_rgba canvas0 canvas f b d where
    "blank_canvas (grid_geometry (length tiles) c gap
        (width (snd (hd tiles))) (height (snd (hd tiles)))) bg_rgba = Inr canvas0"
    "paste_tiles (grid_geometry (length tiles) c gap
        (width (snd (hd tiles))) (height (snd (hd tiles))))
        (width (snd (hd tiles))) (height (snd (hd tiles))) canvas0 0 tiles = Inr canvas"
    "res = \<lparr>filename = f,
           gs_path = ''gs://'' @ b @ ''/'' @ rstrip_slash (FLAGS_OUTPUT_PREFIX E) @ ''/'' @ f,
           placed = map fst tiles, missing = mi\<rparr>"
    "W' = W\<lparr>drawn := d,
           blobs := (blobs W)((b, rstrip_slash (FLAGS_OUTPUT_PREFIX E) @ ''/'' @ f)
              \<mapsto> png_encode L (if bg_rgba = None then canvas else convert_rgb canvas)),
           uploads := uploads W @
              [(b, rstrip_slash (FLAGS_OUTPUT_PREFIX E) @ ''/'' @ f,
                if bg_rgba = None then canvas else convert_rgb canvas)]\<rparr>"
    by auto
  with l show ?thesis by (intro exI [of _ mi] exI [of _ tiles] exI [of _ bg_rgba]
        exI [of _ canvas0] exI [of _ canvas] exI [of _ b]
        exI [of _ "rstrip_slash (FLAGS_OUTPUT_PREFIX E) @ ''/'' @ f"]) simp
qed

lemma example_au_resolves:
  "stamp_resolves example_pillow example_env (blobs example_world) ''au''"
  by code_simp

lemma example_zz_absent:
  "stamp_absent example_pillow example_env (blobs example_world) ''zz''"
  "flag_absent example_pillow example_env (blobs example_world) 250 ''pad'' ''zz''"
  by code_simp+

section \<open>Properties\<close>

subsection \<open>Overlap predicate\<close>

text \<open>
  C1. Two boxes \<open>(x, y, w, h)\<close> overlap unless one lies entirely to the left, to the right,
  above or below the other; the verdict does not depend on the order of the two boxes; and
  the boxes \<open>(0,0,10,10)\<close> and \<open>(10,0,10,10)\<close>, which share only an edge, do not overlap.
\<close>

theorem boxes_overlap_symmetric_edge:
  "(boxes_overlap (ax, ay, aw, ah) (bx, by, bw, bh) \<longleftrightarrow>
      \<not> (ax + aw \<le> bx \<or> bx + bw \<le> ax \<or> ay + ah \<le> by \<or> by + bh \<le> ay))
   \<and> boxes_overlap a b = boxes_overlap b a
   \<and> boxes_overlap (0, 0, 10, 10) (10, 0, 10, 10) = False
   \<and> boxes_overlap (10, 0, 10, 10) (0, 0, 10, 10) = False"
proof -
  obtain ax' ay' aw' ah' where a: "a = (ax', ay', aw', ah')" by (cases a) auto
  obtain bx' by' bw' bh' where b: "b = (bx', by', bw', bh')" by (cases b) auto
  have sym: "boxes_overlap a b = boxes_overlap b a"
    unfolding a b boxes_overlap_def by auto
  show ?thesis
    using sym by (simp add: boxes_overlap_def)
qed

subsection \<open>Placement search\<close>

text \<open>
  C2 (as amended). The placement search never fails. When each of the \<open>OVERLAP_RETRIES\<close>
  positions tried by the loop meets a placed box, the position accepted is not the last
  one tried but a newly drawn one: the position made from the next two raw outputs of the
  generator, \<open>candidate \<dots> OVERLAP_RETRIES\<close>, after which \<open>2 * OVERLAP_RETRIES + 2\<close> outputs
  have been consumed.
\<close>

theorem choose_position_fallback_fresh_draw:
  "(\<exists>pos d. choose_position img_w img_h placed_boxes W = (Inr pos, W\<lparr>drawn := d\<rparr>))
   \<and> (all_tried_overlap img_w img_h placed_boxes W OVERLAP_RETRIES \<longrightarrow>
        choose_position img_w img_h placed_boxes W =
          (Inr (candidate img_w img_h W OVERLAP_RETRIES),
           W\<lparr>drawn := drawn W + 2 * OVERLAP_RETRIES + 2\<rparr>))"
  using choose_position_total choose_position_exhausted by blast

theorem choose_position_fallback_fresh_draw_witness:
  "all_tried_overlap 100 100 [(0, 0, 2000, 2000)] example_world OVERLAP_RETRIES
   \<and> fst (choose_position 100 100 [(0, 0, 2000, 2000)] example_world) = Inr (30, 31)
   \<and> drawn (snd (choose_position 100 100 [(0, 0, 2000, 2000)] example_world)) = 32"
proof -
  have c: "candidate 100 100 example_world 15 = (30, 31)" by code_simp
  have d: "drawn example_world = 0" by code_simp
  have r: "OVERLAP_RETRIES = 15" by (simp add: OVERLAP_RETRIES_def)
  from choose_position_fallback_fresh_draw [of 100 100 "[(0, 0, 2000, 2000)]" example_world]
    example_all_overlap
  have "choose_position 100 100 [(0, 0, 2000, 2000)] example_world =
          (Inr (candidate 100 100 example_world OVERLAP_RETRIES),
           example_world\<lparr>drawn := drawn example_world + 2 * OVERLAP_RETRIES + 2\<rparr>)"
    by blast
  then show ?thesis using example_all_overlap by (simp add: c d r)
qed

text \<open>
  C2 as stated fails: with a placed box covering the canvas every tried position overlaps,
  the last one tried is \<open>(28, 29)\<close>, and the search returns \<open>(30, 31)\<close>.
\<close>

theorem choose_position_last_tried_counterexample:
  "all_tried_overlap 100 100 [(0, 0, 2000, 2000)] example_world OVERLAP_RETRIES
   \<and> candidate 100 100 example_world (OVERLAP_RETRIES - 1) = (28, 29)
   \<and> fst (choose_position 100 100 [(0, 0, 2000, 2000)] example_world) = Inr (30, 31)
   \<and> fst (choose_position 100 100 [(0, 0, 2000, 2000)] example_world) \<noteq>
       Inr (candidate 100 100 example_world (OVERLAP_RETRIES - 1))"
proof -
  have c: "candidate 100 100 example_world 15 = (30, 31)" by code_simp
  have l: "candidate 100 100 example_world 14 = (28, 29)" by code_simp
  have r: "OVERLAP_RETRIES = 15" by (simp add: OVERLAP_RETRIES_def)
  show ?thesis
    using choose_position_exhausted [OF example_all_overlap] example_all_overlap
    by (simp add: r c l)
qed

subsection \<open>Flag tile normalizer\<close>

text \<open>
  C6. For a source image that decodes to a positive size, every positive \<open>box_h\<close> and every
  fit mode (\<^verbatim>\<open>pad\<close>, \<^verbatim>\<open>crop\<close>, and any other string, which stretches), the normalizer
  returns an RGBA tile that is \<open>round(2.0 * box_h) = 2 * box_h\<close> wide and \<open>box_h\<close> high.
\<close>

theorem make_uniform_tile_size:
  assumes dec: "decode L img_bytes = Some (w, h)" and w: "0 < w" and h: "0 < h"
    and bh: "0 < box_h"
  shows "\<exists>tile. make_uniform_tile_from_bytes L img_bytes box_h 2 fit_mode = Inr tile
           \<and> img_mode tile = RGBA
           \<and> width tile = py_round (2 * of_int box_h)
           \<and> width tile = 2 * box_h
           \<and> height tile = box_h"
proof -
  let ?img = "\<lparr>img_mode = RGBA, width = w, height = h, pixels = Decoded img_bytes\<rparr>"
  let ?bw = "2 * box_h"
  have opn: "Image_open_rgba L img_bytes = Inr ?img" by (rule Image_open_rgba_ok [OF dec])
  have bw: "py_round (2 * of_int box_h) = ?bw" by (rule py_round_double)
  have tw: "truediv ?bw w = Inr (of_int ?bw / of_int w)" using w by (simp add: truediv_def)
  have th: "truediv box_h h = Inr (of_int box_h / of_int h)" using h by (simp add: truediv_def)
  show ?thesis
  proof (cases "fit_mode = ''pad''")
    case True
    define s where "s = min (of_int ?bw / of_int w :: rat) (of_int box_h / of_int h)"
    define nw where "nw = max 1 (py_round (of_int w * s))"
    define nh where "nh = max 1 (py_round (of_int h * s))"
    obtain img' where r: "resize ?img (nw, nh) = Inr img'" "img_mode img' = RGBA"
      using resize_ok [of nw nh ?img] by (auto simp: nw_def nh_def)
    have "make_uniform_tile_from_bytes L img_bytes box_h 2 fit_mode =
        alpha_composite \<lparr>img_mode = RGBA, width = ?bw, height = box_h, pixels = Solid (0, 0, 0, 0)\<rparr>
          img' ((?bw - nw) div 2, (box_h - nh) div 2)"
      using True bh r(1)
      by (simp add: make_uniform_tile_from_bytes_def bw opn tw th Let_def Image_new_def
          s_def [symmetric] nw_def [symmetric] nh_def [symmetric] del: of_int_mult of_int_add)
    then show ?thesis using r(2) by (simp add: alpha_composite_def bw)
  next
    case notpad: False
    show ?thesis
    proof (cases "fit_mode = ''crop''")
      case True
      define s where "s = max (of_int ?bw / of_int w :: rat) (of_int box_h / of_int h)"
      define nw where "nw = max 1 (py_round (of_int w * s))"
      define nh where "nh = max 1 (py_round (of_int h * s))"
      obtain img' where r: "resize ?img (nw, nh) = Inr img'" "img_mode img' = RGBA"
        using resize_ok [of nw nh ?img] by (auto simp: nw_def nh_def)
      define l where "l = max 0 ((nw - ?bw) div 2)"
      define t where "t = max 0 ((nh - box_h) div 2)"
      have "make_uniform_tile_from_bytes L img_bytes box_h 2 fit_mode =
          crop img' (l, t, l + ?bw, t + box_h)"
        using True notpad r(1)
        by (simp add: make_uniform_tile_from_bytes_def bw opn tw th Let_def
            s_def [symmetric] nw_def [symmetric] nh_def [symmetric] l_def t_def
            del: of_int_mult of_int_add)
      then show ?thesis using r(2) bh by (simp add: crop_def bw)
    next
      case False
      obtain img' where r: "resize ?img (?bw, box_h) = Inr img'" "img_mode img' = RGBA"
        "width img' = ?bw" "height img' = box_h"
        using resize_ok [of ?bw box_h ?img] bh by auto
      have "make_uniform_tile_from_bytes L img_bytes box_h 2 fit_mode = Inr img'"
        using False notpad r(1)
        by (simp add: make_uniform_tile_from_bytes_def bw opn Let_def)
      then show ?thesis using r by (simp add: bw)
    qed
  qed
qed


theorem make_uniform_tile_size_witness:
  "\<exists>tile. make_uniform_tile_from_bytes example_pillow [1000, 667] 250 2 ''pad'' = Inr tile
           \<and> img_mode tile = RGBA
           \<and> width tile = py_round (2 * of_int 250)
           \<and> width tile = 2 * 250
           \<and> height tile = 250"
proof -
  have d: "decode example_pillow [1000, 667] = Some (1000, 667)"
    by (simp add: example_pillow_def)
  show ?thesis
    by (rule make_uniform_tile_size [OF d]) simp_all
qed

text \<open>
  C7 (as amended). The normalizer has no check of \<open>box_h\<close> and never raises the module's
  \<open>InvalidInput\<close>. For a negative \<open>box_h\<close> it fails inside the imaging library, with the
  \<open>ValueError\<close> of \<^verbatim>\<open>Image.new\<close> (pad), \<^verbatim>\<open>crop\<close> (crop) or \<^verbatim>\<open>resize\<close> (stretch). For
  \<open>box_h = 0\<close> the crop mode returns an empty \<open>0 \<times> 0\<close> tile and the stretch fails inside
  \<^verbatim>\<open>resize\<close>.
\<close>

theorem make_uniform_tile_nonpositive_height:
  assumes dec: "decode L img_bytes = Some (w, h)" and w: "0 < w" and h: "0 < h"
  shows "(box_h < 0 \<longrightarrow>
            make_uniform_tile_from_bytes L img_bytes box_h 2 fit_mode =
              Inl (ValueError
                (if fit_mode = ''pad'' then ''Width and height must be >= 0''
                 else if fit_mode = ''crop'' then right_less_than_left
                 else ''height and width must be > 0'')))
       \<and> (box_h = 0 \<and> fit_mode = ''crop'' \<longrightarrow>
            (\<exists>tile. make_uniform_tile_from_bytes L img_bytes box_h 2 fit_mode = Inr tile
                \<and> width tile = 0 \<and> height tile = 0))
       \<and> (box_h = 0 \<and> fit_mode \<noteq> ''pad'' \<and> fit_mode \<noteq> ''crop'' \<longrightarrow>
            make_uniform_tile_from_bytes L img_bytes box_h 2 fit_mode =
              Inl (ValueError ''height and width must be > 0''))
       \<and> (box_h \<le> 0 \<longrightarrow>
            make_uniform_tile_from_bytes L img_bytes box_h 2 fit_mode \<noteq> Inl InvalidInput)"
proof -
  let ?img = "\<lparr>img_mode = RGBA, width = w, height = h, pixels = Decoded img_bytes\<rparr>"
  let ?bw = "2 * box_h"
  let ?res = "make_uniform_tile_from_bytes L img_bytes box_h 2 fit_mode"
  have opn: "Image_open_rgba L img_bytes = Inr ?img" by (rule Image_open_rgba_ok [OF dec])
  have bw: "py_round (2 * of_int box_h) = ?bw" by (rule py_round_double)
  have tw: "truediv ?bw w = Inr (of_int ?bw / of_int w)" using w by (simp add: truediv_def)
  have th: "truediv box_h h = Inr (of_int box_h / of_int h)" using h by (simp add: truediv_def)
  obtain img' where r: "resize ?img (1, 1) = Inr img'" "img_mode img' = RGBA"
    using resize_one [of ?img] by auto
  have scales: "(of_int ?bw / of_int w :: rat) \<le> 0" "(of_int box_h / of_int h :: rat) \<le> 0"
    if "box_h \<le> 0"
    using that w h by (simp_all add: divide_nonpos_pos)
  have pad: "?res =
      (case Image_new RGBA (?bw, box_h) (0, 0, 0, 0) of
         Inl e \<Rightarrow> Inl e
       | Inr tile \<Rightarrow> alpha_composite tile img' ((?bw - 1) div 2, (box_h - 1) div 2))"
    if "box_h \<le> 0" "fit_mode = ''pad''"
  proof -
    define s where "s = min (of_int ?bw / of_int w :: rat) (of_int box_h / of_int h)"
    have "s \<le> 0" using scales [OF that(1)] by (simp add: s_def)
    then have n: "max 1 (py_round (of_int w * s)) = 1" "max 1 (py_round (of_int h * s)) = 1"
      using w h by (simp_all only: scaled_nonpos)
    show ?thesis
      using that(2) r(1)
      by (simp add: make_uniform_tile_from_bytes_def bw opn tw th Let_def
          s_def [symmetric] n del: of_int_mult of_int_add cong: sum.case_cong)
  qed
  have crp: "?res = crop img' (max 0 ((1 - ?bw) div 2), max 0 ((1 - box_h) div 2),
                 max 0 ((1 - ?bw) div 2) + ?bw, max 0 ((1 - box_h) div 2) + box_h)"
    if "box_h \<le> 0" "fit_mode = ''crop''"
  proof -
    define s where "s = max (of_int ?bw / of_int w :: rat) (of_int box_h / of_int h)"
    have "s \<le> 0" using scales [OF that(1)] by (simp add: s_def)
    then have n: "max 1 (py_round (of_int w * s)) = 1" "max 1 (py_round (of_int h * s)) = 1"
      using w h by (simp_all only: scaled_nonpos)
    show ?thesis
      using that(2) r(1)
      by (simp add: make_uniform_tile_from_bytes_def bw opn tw th Let_def
          s_def [symmetric] n del: of_int_mult of_int_add)
  qed
  have str: "?res = Inl (ValueError ''height and width must be > 0'')"
    if "box_h \<le> 0" "fit_mode \<noteq> ''pad''" "fit_mode \<noteq> ''crop''"
    using that w by (simp add: make_uniform_tile_from_bytes_def bw opn Let_def resize_def)
  have neg: "?res = Inl (ValueError
                (if fit_mode = ''pad'' then ''Width and height must be >= 0''
                 else if fit_mode = ''crop'' then right_less_than_left
                 else ''height and width must be > 0''))" if "box_h < 0"
  proof -
    have le: "box_h \<le> 0" using that by simp
    consider "fit_mode = ''pad''" | "fit_mode = ''crop''"
      | "fit_mode \<noteq> ''pad''" "fit_mode \<noteq> ''crop''" by blast
    then show ?thesis
    proof cases
      case 1
      then show ?thesis using pad [OF le 1] that by (simp add: Image_new_def)
    next
      case 2
      then show ?thesis using crp [OF le 2] that by (simp add: crop_def)
    next
      case 3
      then show ?thesis using str [OF le 3] by simp
    qed
  qed
  have zero_crop: "\<exists>tile. ?res = Inr tile \<and> width tile = 0 \<and> height tile = 0"
    if "box_h = 0" "fit_mode = ''crop''"
    using crp [OF _ that(2)] that(1) by (simp add: crop_def)
  have zero_pad: "\<exists>tile. ?res = Inr tile" if "box_h = 0" "fit_mode = ''pad''"
    using pad [OF _ that(2)] that(1) r(2) by (simp add: Image_new_def alpha_composite_def)
  have not_invalid: "?res \<noteq> Inl InvalidInput" if "box_h \<le> 0"
  proof (cases "box_h < 0")
    case True
    then show ?thesis using neg by (simp add: InvalidInput_def right_less_than_left_def)
  next
    case False
    then have z: "box_h = 0" using that by simp
    consider "fit_mode = ''pad''" | "fit_mode = ''crop''"
      | "fit_mode \<noteq> ''pad''" "fit_mode \<noteq> ''crop''" by blast
    then show ?thesis
    proof cases
      case 1
      then show ?thesis using zero_pad [OF z] by auto
    next
      case 2
      then show ?thesis using zero_crop [OF z] by auto
    next
      case 3
      then show ?thesis using str [OF that 3] by (simp add: InvalidInput_def)
    qed
  qed
  show ?thesis
    using neg zero_crop str not_invalid by auto
qed

theorem make_uniform_tile_nonpositive_height_witness:
  "make_uniform_tile_from_bytes example_pillow [3, 2] (-1) 2 ''pad'' =
     Inl (ValueError ''Width and height must be >= 0'')
   \<and> make_uniform_tile_from_bytes example_pillow [3, 2] (-1) 2 ''crop'' =
     Inl (ValueError right_less_than_left)
   \<and> make_uniform_tile_from_bytes example_pillow [3, 2] (-1) 2 ''stretch'' =
     Inl (ValueError ''height and width must be > 0'')
   \<and> (\<exists>tile. make_uniform_tile_from_bytes example_pillow [3, 2] 0 2 ''crop'' = Inr tile
          \<and> width tile = 0 \<and> height tile = 0)
   \<and> make_uniform_tile_from_bytes example_pillow [3, 2] 0 2 ''stretch'' =
     Inl (ValueError ''height and width must be > 0'')
   \<and> make_uniform_tile_from_bytes example_pillow [3, 2] 0 2 ''pad'' \<noteq> Inl InvalidInput"
proof -
  have d: "decode example_pillow [3, 2] = Some (3, 2)"
    by (simp add: example_pillow_def)
  note t = make_uniform_tile_nonpositive_height [OF d]
  show ?thesis
    using t [of "-1" "''pad''"] t [of "-1" "''crop''"] t [of "-1" "''stretch''"]
      t [of 0 "''crop''"] t [of 0 "''stretch''"] t [of 0 "''pad''"]
    by simp
qed

text \<open>
  C7 as stated fails: at \<open>box_h = 0\<close> in crop mode the normalizer returns a tile.
\<close>

theorem make_uniform_tile_zero_height_counterexample:
  "(0::int) \<le> 0
   \<and> make_uniform_tile_from_bytes example_pillow [3, 2] 0 2 ''crop'' =
       Inr \<lparr>img_mode = RGBA, width = 0, height = 0,
            pixels = Cropped (Resized (Decoded [3, 2]) (1, 1)) (0, 0, 0, 0)\<rparr>"
  by code_simp

subsection \<open>Background colour\<close>

text \<open>
  C8. The string \<^verbatim>\<open>#ggg\<close> is neither the keyword \<^verbatim>\<open>transparent\<close> nor a well-formed
  hex colour, yet the parser does not fall back to opaque white on it: it has the shape
  the parser hands to \<^verbatim>\<open>int(_, 16)\<close>, which raises \<open>ValueError\<close>.
\<close>

theorem hex_to_rgba_malformed_hex_raises:
  "lower ''#ggg'' \<noteq> ''transparent'' \<and> well_formed_hex ''#ggg'' = False
   \<and> hex_to_rgba ''#ggg'' = Inl (invalid_literal ''gg'')
   \<and> hex_to_rgba ''#ggg'' \<noteq> Inr (Some (255, 255, 255, 255))"
  by code_simp

text \<open>
  C9. \<^verbatim>\<open>#fff\<close> and \<^verbatim>\<open>#ffffff\<close> parse to the same opaque value, \<open>(255, 255, 255, 255)\<close>.
  The parser reads the digits: \<^verbatim>\<open>#abc\<close> and \<^verbatim>\<open>#aabbcc\<close> are \<open>(170, 187, 204, 255)\<close>,
  \<^verbatim>\<open>#000\<close> is opaque black, and for hexadecimal digits of values \<open>x\<close>, \<open>y\<close>, \<open>z\<close> the
  four-character form is \<open>(17x, 17y, 17z, 255)\<close>, the value of the seven-character form
  with each digit doubled, while six digits give \<open>(16 x\<^sub>1 + x\<^sub>2, 16 y\<^sub>1 + y\<^sub>2, 16 z\<^sub>1 + z\<^sub>2, 255)\<close>.
  Every spelling of \<^verbatim>\<open>transparent\<close>, whatever its case, parses to no colour; the canvas
  the grid then starts from is the solid fill \<open>(0, 0, 0, 0)\<close>, alpha \<open>0\<close> at every pixel, and
  the whole composition is the one for the lower-case keyword.
\<close>

theorem hex_to_rgba_short_long_transparent:
  "hex_to_rgba ''#fff'' = Inr (Some (255, 255, 255, 255))
   \<and> hex_to_rgba ''#ffffff'' = Inr (Some (255, 255, 255, 255))
   \<and> hex_to_rgba ''#abc'' = Inr (Some (170, 187, 204, 255))
   \<and> hex_to_rgba ''#aabbcc'' = Inr (Some (170, 187, 204, 255))
   \<and> hex_to_rgba ''#000'' = Inr (Some (0, 0, 0, 255))
   \<and> hex_to_rgba ''#1A2b3C'' = Inr (Some (26, 43, 60, 255))
   \<and> hex_to_rgba [CHR ''#'', a, b, c] = hex_to_rgba [CHR ''#'', a, a, b, b, c, c]
   \<and> (hex_digit a = Some x \<and> hex_digit b = Some y \<and> hex_digit c = Some z \<longrightarrow>
        hex_to_rgba [CHR ''#'', a, b, c] =
          Inr (Some (int (17 * x), int (17 * y), int (17 * z), 255))
        \<and> hex_to_rgba [CHR ''#'', a, a, b, b, c, c] =
          Inr (Some (int (17 * x), int (17 * y), int (17 * z), 255)))
   \<and> (hex_digit a = Some x \<and> hex_digit a' = Some x'
        \<and> hex_digit b = Some y \<and> hex_digit b' = Some y'
        \<and> hex_digit c = Some z \<and> hex_digit c' = Some z' \<longrightarrow>
        hex_to_rgba [CHR ''#'', a, a', b, b', c, c'] =
          Inr (Some (int (16 * x + x'), int (16 * y + y'), int (16 * z + z'), 255)))
   \<and> (lower bg = ''transparent'' \<longrightarrow>
        hex_to_rgba bg = Inr None
        \<and> (\<forall>canvas. blank_canvas G None = Inr canvas \<longrightarrow>
              canvas = \<lparr>img_mode = RGBA, width = canvas_w G, height = canvas_h G,
                        pixels = Solid (0, 0, 0, 0)\<rparr>)
        \<and> compose_grid L E mi tiles cols gap bg W =
            compose_grid L E mi tiles cols gap ''transparent'' W)"
proof -
  have s: "hex_to_rgba ''#fff'' = Inr (Some (255, 255, 255, 255))" by code_simp
  have l: "hex_to_rgba ''#ffffff'' = Inr (Some (255, 255, 255, 255))" by code_simp
  have v1: "hex_to_rgba ''#abc'' = Inr (Some (170, 187, 204, 255))" by code_simp
  have v2: "hex_to_rgba ''#aabbcc'' = Inr (Some (170, 187, 204, 255))" by code_simp
  have v3: "hex_to_rgba ''#000'' = Inr (Some (0, 0, 0, 255))" by code_simp
  have v4: "hex_to_rgba ''#1A2b3C'' = Inr (Some (26, 43, 60, 255))" by code_simp
  have t: "hex_to_rgba ''transparent'' = Inr None" by code_simp
  have sh: "hex_to_rgba [CHR ''#'', a, b, c] =
          Inr (Some (int (17 * x), int (17 * y), int (17 * z), 255))
        \<and> hex_to_rgba [CHR ''#'', a, a, b, b, c, c] =
          Inr (Some (int (17 * x), int (17 * y), int (17 * z), 255))"
    if "hex_digit a = Some x \<and> hex_digit b = Some y \<and> hex_digit c = Some z"
  proof -
    have "hex_to_rgba [CHR ''#'', a, b, c] =
          Inr (Some (int (17 * x), int (17 * y), int (17 * z), 255))"
      using that by (simp add: hex_short_value)
    then show ?thesis by (simp add: hex_short_long [symmetric])
  qed
  have lg: "hex_to_rgba [CHR ''#'', a, a', b, b', c, c'] =
          Inr (Some (int (16 * x + x'), int (16 * y + y'), int (16 * z + z'), 255))"
    if "hex_digit a = Some x \<and> hex_digit a' = Some x'
        \<and> hex_digit b = Some y \<and> hex_digit b' = Some y'
        \<and> hex_digit c = Some z \<and> hex_digit c' = Some z'"
    using that by (simp add: hex_long_value)
  have tr: "hex_to_rgba bg = Inr None
        \<and> (\<forall>canvas. blank_canvas G None = Inr canvas \<longrightarrow>
              canvas = \<lparr>img_mode = RGBA, width = canvas_w G, height = canvas_h G,
                        pixels = Solid (0, 0, 0, 0)\<rparr>)
        \<and> compose_grid L E mi tiles cols gap bg W =
            compose_grid L E mi tiles cols gap ''transparent'' W"
    if lo: "lower bg = ''transparent''"
  proof -
    have "compose_grid L E mi tiles cols gap bg W =
            compose_grid L E mi tiles cols gap ''transparent'' W"
      by (simp only: compose_grid_def hex_transparent [OF lo] t)
    then show ?thesis
      using hex_transparent [OF lo] blank_canvas_transparent by blast
  qed
  show ?thesis
    apply (intro conjI)
             apply (rule s)
            apply (rule l)
           apply (rule v1)
          apply (rule v2)
         apply (rule v3)
        apply (rule v4)
       apply (rule hex_short_long)
      apply (rule impI, erule sh)
     apply (rule impI, erule lg)
    apply (rule impI, erule tr)
    done
qed

theorem hex_to_rgba_short_long_transparent_witness:
  "lower ''TransParent'' = ''transparent''
   \<and> hex_to_rgba ''TransParent'' = Inr None
   \<and> hex_digit (CHR ''a'') = Some 10 \<and> hex_digit (CHR ''B'') = Some 11
   \<and> hex_digit (CHR ''7'') = Some 7
   \<and> hex_to_rgba ''#aB7'' = Inr (Some (170, 187, 119, 255))
   \<and> hex_to_rgba ''#aaBB77'' = Inr (Some (170, 187, 119, 255))
   \<and> hex_to_rgba ''#a7Ba7B'' = Inr (Some (167, 186, 123, 255))
   \<and> blank_canvas \<lparr>g_cols = 2, g_rows = 2, g_gap = 10, canvas_w = 410, canvas_h = 210\<rparr> None =
       Inr \<lparr>img_mode = RGBA, width = 410, height = 210, pixels = Solid (0, 0, 0, 0)\<rparr>"
proof -
  have lo: "lower ''TransParent'' = ''transparent''" by code_simp
  have d: "hex_digit (CHR ''a'') = Some 10" "hex_digit (CHR ''B'') = Some 11"
    "hex_digit (CHR ''7'') = Some 7" by code_simp+
  have bc: "blank_canvas \<lparr>g_cols = 2, g_rows = 2, g_gap = 10, canvas_w = 410, canvas_h = 210\<rparr> None =
       Inr \<lparr>img_mode = RGBA, width = 410, height = 210, pixels = Solid (0, 0, 0, 0)\<rparr>"
    by code_simp
  from hex_to_rgba_short_long_transparent
    [of "CHR ''a''" "CHR ''B''" "CHR ''7''" 10 11 7 "CHR ''a''" 10 "CHR ''B''" 11 "CHR ''7''" 7
      "''TransParent''"] d lo
  have sh: "hex_to_rgba ''#aB7'' = Inr (Some (170, 187, 119, 255))"
    and dl: "hex_to_rgba ''#aaBB77'' = Inr (Some (170, 187, 119, 255))"
    and tr: "hex_to_rgba ''TransParent'' = Inr None"
    by simp_all
  from hex_to_rgba_short_long_transparent
    [of "CHR ''a''" "CHR ''B''" "CHR ''7''" 10 11 7 "CHR ''7''" 7 "CHR ''a''" 10 "CHR ''B''" 11] d
  have lg: "hex_to_rgba ''#a7Ba7B'' = Inr (Some (167, 186, 123, 255))"
    by simp
  show ?thesis using lo d sh dl tr lg bc by simp
qed

subsection \<open>Grid geometry\<close>

text \<open>
  C3. With \<open>n \<ge> 1\<close> tiles and \<open>c\<close> requested columns, the effective column count is
  \<open>clamp(c, 1, n)\<close> and the row count is \<open>ceil(n / cols)\<close>, the least number of rows of that
  many columns that hold \<open>n\<close> tiles; the canvas is \<open>cols * tile_w + (cols - 1) * gap\<close> wide and
  \<open>rows * tile_h + (rows - 1) * gap\<close> high, \<open>gap\<close> being the gap in effect, \<open>max(0, gap)\<close>; and
  the image a successful run uploads has that size, for the size of the first tile. Twenty
  tiles in eight columns make three rows; three tiles with eight columns requested make
  three columns and one row.
\<close>

theorem grid_geometry_clamp_ceil:
  "(1 \<le> n \<longrightarrow>
      g_cols (grid_geometry n c gap tw th) = clamp c 1 (int n)
    \<and> g_rows (grid_geometry n c gap tw th) =
        \<lceil>(of_nat n / of_int (clamp c 1 (int n)) :: rat)\<rceil>
    \<and> (g_rows (grid_geometry n c gap tw th) - 1) * g_cols (grid_geometry n c gap tw th) < int n
    \<and> int n \<le> g_rows (grid_geometry n c gap tw th) * g_cols (grid_geometry n c gap tw th)
    \<and> g_gap (grid_geometry n c gap tw th) = max 0 gap
    \<and> canvas_w (grid_geometry n c gap tw th) =
        g_cols (grid_geometry n c gap tw th) * tw
        + (g_cols (grid_geometry n c gap tw th) - 1) * g_gap (grid_geometry n c gap tw th)
    \<and> canvas_h (grid_geometry n c gap tw th) =
        g_rows (grid_geometry n c gap tw th) * th
        + (g_rows (grid_geometry n c gap tw th) - 1) * g_gap (grid_geometry n c gap tw th)
    \<and> (0 \<le> gap \<longrightarrow>
          canvas_w (grid_geometry n c gap tw th) =
            g_cols (grid_geometry n c gap tw th) * tw
            + (g_cols (grid_geometry n c gap tw th) - 1) * gap
        \<and> canvas_h (grid_geometry n c gap tw th) =
            g_rows (grid_geometry n c gap tw th) * th
            + (g_rows (grid_geometry n c gap tw th) - 1) * gap))
   \<and> (tiles \<noteq> [] \<and> compose_grid L E mi tiles c gap bg W = (Inr res, W') \<longrightarrow>
        (\<exists>b p img. uploads W' = uploads W @ [(b, p, img)]
           \<and> width img = canvas_w (grid_geometry (length tiles) c gap
                                    (width (snd (hd tiles))) (height (snd (hd tiles))))
           \<and> height img = canvas_h (grid_geometry (length tiles) c gap
                                    (width (snd (hd tiles))) (height (snd (hd tiles))))))
   \<and> g_cols (grid_geometry 20 8 gap tw th) = 8 \<and> g_rows (grid_geometry 20 8 gap tw th) = 3
   \<and> g_cols (grid_geometry 3 8 gap tw th) = 3 \<and> g_rows (grid_geometry 3 8 gap tw th) = 1"
proof -
  have general: "g_cols (grid_geometry n c gap tw th) = clamp c 1 (int n)
    \<and> g_rows (grid_geometry n c gap tw th) =
        \<lceil>(of_nat n / of_int (clamp c 1 (int n)) :: rat)\<rceil>
    \<and> (g_rows (grid_geometry n c gap tw th) - 1) * g_cols (grid_geometry n c gap tw th) < int n
    \<and> int n \<le> g_rows (grid_geometry n c gap tw th) * g_cols (grid_geometry n c gap tw th)
    \<and> g_gap (grid_geometry n c gap tw th) = max 0 gap
    \<and> canvas_w (grid_geometry n c gap tw th) =
        g_cols (grid_geometry n c gap tw th) * tw
        + (g_cols (grid_geometry n c gap tw th) - 1) * g_gap (grid_geometry n c gap tw th)
    \<and> canvas_h (grid_geometry n c gap tw th) =
        g_rows (grid_geometry n c gap tw th) * th
        + (g_rows (grid_geometry n c gap tw th) - 1) * g_gap (grid_geometry n c gap tw th)
    \<and> (0 \<le> gap \<longrightarrow>
          canvas_w (grid_geometry n c gap tw th) =
            g_cols (grid_geometry n c gap tw th) * tw
            + (g_cols (grid_geometry n c gap tw th) - 1) * gap
        \<and> canvas_h (grid_geometry n c gap tw th) =
            g_rows (grid_geometry n c gap tw th) * th
            + (g_rows (grid_geometry n c gap tw th) - 1) * gap)"
    if n: "1 \<le> n"
  proof -
    have pos: "0 < clamp c 1 (int n)" using clamp_pos [of "int n" c] n by simp
    note eq = grid_geometry_eq [OF n, of c gap tw th]
    have cq: "\<lceil>(of_nat n / of_int (clamp c 1 (int n)) :: rat)\<rceil> =
        (int n + clamp c 1 (int n) - 1) div clamp c 1 (int n)"
      using ceiling_quotient [OF pos, of "int n"] by simp
    show ?thesis
      using ceiling_quotient_bounds [OF pos, of "int n"]
      by (simp add: eq cq)
  qed
  have e1: "g_cols (grid_geometry 20 8 gap tw th) = 8 \<and> g_rows (grid_geometry 20 8 gap tw th) = 3"
    using grid_geometry_eq [of 20 8 gap tw th] by (simp add: clamp_def)
  have e2: "g_cols (grid_geometry 3 8 gap tw th) = 3 \<and> g_rows (grid_geometry 3 8 gap tw th) = 1"
    using grid_geometry_eq [of 3 8 gap tw th] by (simp add: clamp_def)
  have run: "\<exists>b p img. uploads W' = uploads W @ [(b, p, img)]
           \<and> width img = canvas_w (grid_geometry (length tiles) c gap
                                    (width (snd (hd tiles))) (height (snd (hd tiles))))
           \<and> height img = canvas_h (grid_geometry (length tiles) c gap
                                    (width (snd (hd tiles))) (height (snd (hd tiles))))"
    if "compose_grid L E mi tiles c gap bg W = (Inr res, W')"
    using compose_grid_success [OF that] by blast
  show ?thesis using general e1 e2 run by blast
qed


theorem grid_geometry_clamp_ceil_witness:
  "g_cols (grid_geometry 3 2 10 200 100) = clamp 2 1 3
   \<and> g_rows (grid_geometry 3 2 10 200 100) = \<lceil>(of_nat 3 / of_int (clamp 2 1 3) :: rat)\<rceil>
   \<and> g_cols (grid_geometry 3 2 10 200 100) = 2
   \<and> g_rows (grid_geometry 3 2 10 200 100) = 2
   \<and> canvas_w (grid_geometry 3 2 10 200 100) = 410
   \<and> canvas_h (grid_geometry 3 2 10 200 100) = 210"
proof -
  have n: "(1::nat) \<le> 3" by simp
  have c: "clamp 2 1 3 = 2" by (simp add: clamp_def)
  have r: "\<lceil>(3 / 2 :: rat)\<rceil> = 2" by code_simp
  have "(1::nat) \<le> 3 \<longrightarrow>
      g_cols (grid_geometry 3 2 10 200 100) = clamp 2 1 (int 3)
    \<and> g_rows (grid_geometry 3 2 10 200 100) =
        \<lceil>(of_nat 3 / of_int (clamp 2 1 (int 3)) :: rat)\<rceil>
    \<and> (g_rows (grid_geometry 3 2 10 200 100) - 1) * g_cols (grid_geometry 3 2 10 200 100) < int 3
    \<and> int 3 \<le> g_rows (grid_geometry 3 2 10 200 100) * g_cols (grid_geometry 3 2 10 200 100)
    \<and> g_gap (grid_geometry 3 2 10 200 100) = max 0 10
    \<and> canvas_w (grid_geometry 3 2 10 200 100) =
        g_cols (grid_geometry 3 2 10 200 100) * 200
        + (g_cols (grid_geometry 3 2 10 200 100) - 1) * g_gap (grid_geometry 3 2 10 200 100)
    \<and> canvas_h (grid_geometry 3 2 10 200 100) =
        g_rows (grid_geometry 3 2 10 200 100) * 100
        + (g_rows (grid_geometry 3 2 10 200 100) - 1) * g_gap (grid_geometry 3 2 10 200 100)"
    using grid_geometry_clamp_ceil [of 3 2 10 200 100] by blast
  with n have g: "g_cols (grid_geometry 3 2 10 200 100) = clamp 2 1 (int 3)"
    "g_rows (grid_geometry 3 2 10 200 100) = \<lceil>(of_nat 3 / of_int (clamp 2 1 (int 3)) :: rat)\<rceil>"
    "g_gap (grid_geometry 3 2 10 200 100) = max 0 10"
    "canvas_w (grid_geometry 3 2 10 200 100) =
        g_cols (grid_geometry 3 2 10 200 100) * 200
        + (g_cols (grid_geometry 3 2 10 200 100) - 1) * g_gap (grid_geometry 3 2 10 200 100)"
    "canvas_h (grid_geometry 3 2 10 200 100) =
        g_rows (grid_geometry 3 2 10 200 100) * 100
        + (g_rows (grid_geometry 3 2 10 200 100) - 1) * g_gap (grid_geometry 3 2 10 200 100)"
    by blast+
  have cols: "g_cols (grid_geometry 3 2 10 200 100) = 2" using g(1) c by simp
  have rows: "g_rows (grid_geometry 3 2 10 200 100) = 2" using g(2) c r by simp
  show ?thesis
    using g(4) g(5) by (simp add: cols rows g(3) c r)
qed

text \<open>
  C10. A negative gap is treated as the gap \<open>0\<close>: the geometry (columns, rows, canvas
  size), the position of every tile, and the whole run are those of the gap \<open>0\<close>.
\<close>

theorem negative_gap_is_zero_gap:
  "gap < 0 \<longrightarrow>
     grid_geometry n c gap tw th = grid_geometry n c 0 tw th
   \<and> g_gap (grid_geometry n c gap tw th) = 0
   \<and> tile_position (grid_geometry n c gap tw th) tw th idx =
       tile_position (grid_geometry n c 0 tw th) tw th idx
   \<and> compose_grid L E mi tiles c gap bg W = compose_grid L E mi tiles c 0 bg W
   \<and> build_flag_grid L E codes c gap tile_height bg fit_mode W =
       build_flag_grid L E codes c 0 tile_height bg fit_mode W"
proof
  assume g: "gap < 0"
  have "g_gap (grid_geometry n c gap tw th) = 0" using g by (simp add: grid_geometry_def Let_def)
  then show "grid_geometry n c gap tw th = grid_geometry n c 0 tw th
   \<and> g_gap (grid_geometry n c gap tw th) = 0
   \<and> tile_position (grid_geometry n c gap tw th) tw th idx =
       tile_position (grid_geometry n c 0 tw th) tw th idx
   \<and> compose_grid L E mi tiles c gap bg W = compose_grid L E mi tiles c 0 bg W
   \<and> build_flag_grid L E codes c gap tile_height bg fit_mode W =
       build_flag_grid L E codes c 0 tile_height bg fit_mode W"
    by (simp only: grid_geometry_gap [OF g] compose_grid_gap [OF g] build_flag_grid_gap [OF g]
        simp_thms)
qed

theorem negative_gap_is_zero_gap_witness:
  "(-5::int) < 0
   \<and> canvas_w (grid_geometry 3 2 (-5) 200 100) = 400
   \<and> canvas_h (grid_geometry 3 2 (-5) 200 100) = 200
   \<and> grid_geometry 3 2 (-5) 200 100 = grid_geometry 3 2 0 200 100
   \<and> tile_position (grid_geometry 3 2 (-5) 200 100) 200 100 2 = (0, 100)
   \<and> tile_position (grid_geometry 3 2 0 200 100) 200 100 2 = (0, 100)"
proof -
  have z: "grid_geometry 3 2 0 200 100 =
      \<lparr>g_cols = 2, g_rows = 2, g_gap = 0, canvas_w = 400, canvas_h = 200\<rparr>"
    by code_simp
  have p: "tile_position \<lparr>g_cols = 2, g_rows = 2, g_gap = 0, canvas_w = 400, canvas_h = 200\<rparr>
      200 100 2 = (0, 100)" by code_simp
  from negative_gap_is_zero_gap [of "-5" 3 2 200 100 2]
  have "grid_geometry 3 2 (-5) 200 100 = grid_geometry 3 2 0 200 100" by simp
  then show ?thesis by (simp add: z p)
qed

subsection \<open>The pipelines\<close>

text \<open>
  C4 (as amended). When the normalized code list is not empty and every code in it
  resolves, the stamp pipeline succeeds, \<open>missing\<close> is empty and \<open>placed\<close> is the normalized
  list itself, in input order, one entry for each occurrence of a code: its length is the
  number of codes, which is the number of distinct codes when no code occurs twice.
\<close>

theorem compose_passport_stamps_placed_in_order:
  assumes "normalize_stamp_codes codes \<noteq> []"
    and "\<forall>code \<in> set (normalize_stamp_codes codes). stamp_resolves L E (blobs W) code"
  shows "\<exists>res W'. compose_passport_stamps L E codes W = (Inr res, W')
           \<and> missing res = []
           \<and> placed res = normalize_stamp_codes codes
           \<and> length (placed res) = length (normalize_stamp_codes codes)
           \<and> (distinct (normalize_stamp_codes codes) \<longrightarrow>
                length (placed res) = card (set (normalize_stamp_codes codes)))"
proof -
  from compose_passport_stamps_all_resolve [OF assms]
  obtain res W' where r: "compose_passport_stamps L E codes W = (Inr res, W')"
    "missing res = []" "placed res = normalize_stamp_codes codes" by blast
  then show ?thesis by (auto simp: distinct_card)
qed

theorem compose_passport_stamps_placed_in_order_witness:
  "\<exists>res W'. compose_passport_stamps example_pillow example_env [''AU'', ''''] example_world = (Inr res, W')
           \<and> missing res = [] \<and> placed res = [''au''] \<and> length (placed res) = 1"
proof -
  have n: "normalize_stamp_codes [''AU'', ''''] = [''au'']" by code_simp
  have "normalize_stamp_codes [''AU'', ''''] \<noteq> []"
    and "\<forall>code \<in> set (normalize_stamp_codes [''AU'', '''']).
           stamp_resolves example_pillow example_env (blobs example_world) code"
    using example_au_resolves by (simp_all add: n)
  from compose_passport_stamps_placed_in_order [OF this] show ?thesis by (auto simp: n)
qed

text \<open>
  C4 as stated fails on a repeated code: for \<^verbatim>\<open>["au", "au"]\<close>, both resolving, \<open>placed\<close>
  has two entries and there is one distinct code.
\<close>

theorem compose_passport_stamps_duplicates_counterexample:
  "normalize_stamp_codes [''au'', ''au''] = [''au'', ''au'']
   \<and> list_all (stamp_resolves example_pillow example_env (blobs example_world))
        (normalize_stamp_codes [''au'', ''au''])
   \<and> map_sum id placed (fst (compose_passport_stamps example_pillow example_env
        [''au'', ''au''] example_world)) = Inr [''au'', ''au'']
   \<and> length [''au'', ''au''] \<noteq> length (remdups (normalize_stamp_codes [''au'', ''au'']))"
proof -
  have n: "normalize_stamp_codes [''au'', ''au''] = [''au'', ''au'']" by code_simp
  have ne: "normalize_stamp_codes [''au'', ''au''] \<noteq> []"
    and all: "\<forall>code \<in> set (normalize_stamp_codes [''au'', ''au'']).
           stamp_resolves example_pillow example_env (blobs example_world) code"
    using example_au_resolves by (simp_all add: n)
  from compose_passport_stamps_all_resolve [OF ne all]
  have "map_sum id placed (fst (compose_passport_stamps example_pillow example_env
        [''au'', ''au''] example_world)) = Inr [''au'', ''au'']"
    by (auto simp: n)
  then show ?thesis using example_au_resolves by (simp add: n)
qed

text \<open>
  C5 (as amended). When the normalized code list is not empty and every code in it is
  absent from storage, the stamp pipeline and the flag grid fail with \<open>NoAssetsResolved\<close>
  and leave the process as it was: nothing is uploaded. In every run of either pipeline
  that fails, the uploads and the bucket are unchanged; in every run that succeeds, exactly
  one upload is added, and its image is the canvas that the loop over all codes (stamps) or
  the pasting of all tiles (flags) returned.
\<close>

theorem no_assets_resolved_no_persist:
  "(normalize_stamp_codes codes \<noteq> []
      \<and> (\<forall>code \<in> set (normalize_stamp_codes codes). stamp_absent L E (blobs W) code) \<longrightarrow>
        compose_passport_stamps L E codes W = (Inl NoAssetsResolved_stamps, W))
   \<and> (normalize_flag_codes codes \<noteq> []
      \<and> (\<forall>code \<in> set (normalize_flag_codes codes).
            flag_absent L E (blobs W) tile_height fit_mode code) \<longrightarrow>
        build_flag_grid L E codes cols gap tile_height bg fit_mode W =
          (Inl NoAssetsResolved_flags, W))
   \<and> (\<forall>e W'. compose_passport_stamps L E codes W = (Inl e, W') \<longrightarrow>
          uploads W' = uploads W \<and> blobs W' = blobs W)
   \<and> (\<forall>e W'. build_flag_grid L E codes cols gap tile_height bg fit_mode W = (Inl e, W') \<longrightarrow>
          uploads W' = uploads W \<and> blobs W' = blobs W)
   \<and> (\<forall>res W'. compose_passport_stamps L E codes W = (Inr res, W') \<longrightarrow>
          (\<exists>canvas bs W1 b p.
             stamp_loop L E (normalize_stamp_codes codes) (blank_stamp_canvas, [], [], []) W =
               (Inr (canvas, bs, placed res, missing res), W1)
             \<and> uploads W' = uploads W @ [(b, p, canvas)]))
   \<and> (\<forall>res W'. build_flag_grid L E codes cols gap tile_height bg fit_mode W = (Inr res, W') \<longrightarrow>
          (\<exists>mi tiles bg_rgba canvas0 canvas b p.
             load_tiles L E (blobs W) tile_height fit_mode (normalize_flag_codes codes) ([], []) =
               Inr (mi, tiles)
             \<and> blank_canvas (grid_geometry (length tiles) cols gap
                   (width (snd (hd tiles))) (height (snd (hd tiles)))) bg_rgba = Inr canvas0
             \<and> paste_tiles (grid_geometry (length tiles) cols gap
                   (width (snd (hd tiles))) (height (snd (hd tiles))))
                   (width (snd (hd tiles))) (height (snd (hd tiles))) canvas0 0 tiles = Inr canvas
             \<and> placed res = map fst tiles \<and> missing res = mi
             \<and> uploads W' = uploads W @
                  [(b, p, if bg_rgba = None then canvas else convert_rgb canvas)]))"
proof -
  have a: "compose_passport_stamps L E codes W = (Inl NoAssetsResolved_stamps, W)"
    if "normalize_stamp_codes codes \<noteq> []"
      "\<forall>code \<in> set (normalize_stamp_codes codes). stamp_absent L E (blobs W) code"
    using that by (rule compose_passport_stamps_all_absent)
  have b: "build_flag_grid L E codes cols gap tile_height bg fit_mode W =
          (Inl NoAssetsResolved_flags, W)"
    if "normalize_flag_codes codes \<noteq> []"
      "\<forall>code \<in> set (normalize_flag_codes codes).
            flag_absent L E (blobs W) tile_height fit_mode code"
    using that by (rule build_flag_grid_all_absent)
  have c: "uploads W' = uploads W \<and> blobs W' = blobs W"
    if "compose_passport_stamps L E codes W = (Inl e, W')" for e W'
    using that by (rule compose_passport_stamps_failure)
  have d: "uploads W' = uploads W \<and> blobs W' = blobs W"
    if "build_flag_grid L E codes cols gap tile_height bg fit_mode W = (Inl e, W')" for e W'
    using that by (rule build_flag_grid_failure)
  have e: "\<exists>canvas bs W1 b p.
             stamp_loop L E (normalize_stamp_codes codes) (blank_stamp_canvas, [], [], []) W =
               (Inr (canvas, bs, placed res, missing res), W1)
             \<and> uploads W' = uploads W @ [(b, p, canvas)]"
    if "compose_passport_stamps L E codes W = (Inr res, W')" for res W'
    using compose_passport_stamps_success [OF that] by blast
  have f: "\<exists>mi tiles bg_rgba canvas0 canvas b p.
             load_tiles L E (blobs W) tile_height fit_mode (normalize_flag_codes codes) ([], []) =
               Inr (mi, tiles)
             \<and> blank_canvas (grid_geometry (length tiles) cols gap
                   (width (snd (hd tiles))) (height (snd (hd tiles)))) bg_rgba = Inr canvas0
             \<and> paste_tiles (grid_geometry (length tiles) cols gap
                   (width (snd (hd tiles))) (height (snd (hd tiles))))
                   (width (snd (hd tiles))) (height (snd (hd tiles))) canvas0 0 tiles = Inr canvas
             \<and> placed res = map fst tiles \<and> missing res = mi
             \<and> uploads W' = uploads W @
                  [(b, p, if bg_rgba = None then canvas else convert_rgb canvas)]"
    if "build_flag_grid L E codes cols gap tile_height bg fit_mode W = (Inr res, W')" for res W'
    using that by (rule build_flag_grid_success_canvas)
  show ?thesis
    apply (intro conjI impI allI)
    subgoal using a by blast
    subgoal using b by blast
    subgoal using c by blast
    subgoal using c by blast
    subgoal using d by blast
    subgoal using d by blast
    subgoal using e by blast
    subgoal using f by blast
    done
qed

theorem no_assets_resolved_no_persist_witness:
  "compose_passport_stamps example_pillow example_env [''zz''] example_world =
     (Inl NoAssetsResolved_stamps, example_world)
   \<and> build_flag_grid example_pillow example_env [''zz''] 8 12 250 ''transparent'' ''pad'' example_world =
     (Inl NoAssetsResolved_flags, example_world)"
proof -
  have n: "normalize_stamp_codes [''zz''] = [''zz'']" "normalize_flag_codes [''zz''] = [''zz'']"
    by code_simp+
  have hs: "normalize_stamp_codes [''zz''] \<noteq> []
      \<and> (\<forall>code \<in> set (normalize_stamp_codes [''zz'']).
            stamp_absent example_pillow example_env (blobs example_world) code)"
    using example_zz_absent(1) by (simp add: n)
  have hf: "normalize_flag_codes [''zz''] \<noteq> []
      \<and> (\<forall>code \<in> set (normalize_flag_codes [''zz'']).
            flag_absent example_pillow example_env (blobs example_world) 250 ''pad'' code)"
    using example_zz_absent(2) by (simp add: n)
  note t = no_assets_resolved_no_persist [of "[''zz'']" example_pillow example_env example_world
      250 "''pad''" 8 12 "''transparent''"]
  from t hs have "compose_passport_stamps example_pillow example_env [''zz''] example_world =
     (Inl NoAssetsResolved_stamps, example_world)" by blast
  moreover from t hf have "build_flag_grid example_pillow example_env [''zz''] 8 12 250
      ''transparent'' ''pad'' example_world = (Inl NoAssetsResolved_flags, example_world)" by blast
  ultimately show ?thesis by simp
qed

text \<open>
  C5 as stated fails on a list with nothing left after normalization: for the stamp codes
  \<^verbatim>\<open>[""]\<close> and the flag codes \<^verbatim>\<open>["  "]\<close> no code resolves, and the pipelines fail with
  \<open>InvalidInput\<close>, not with \<open>NoAssetsResolved\<close>.
\<close>

theorem blank_code_list_counterexample:
  "list_ex (stamp_resolves example_pillow example_env (blobs example_world)) [''''] = False
   \<and> fst (compose_passport_stamps example_pillow example_env [''''] example_world) =
       Inl InvalidInput
   \<and> fst (compose_passport_stamps example_pillow example_env [''''] example_world) \<noteq>
       Inl NoAssetsResolved_stamps
   \<and> list_ex (flag_resolves example_pillow example_env (blobs example_world) 250 ''pad'')
        [''  ''] = False
   \<and> fst (build_flag_grid example_pillow example_env [''  ''] 8 12 250 ''transparent'' ''pad''
        example_world) = Inl InvalidInput
   \<and> fst (build_flag_grid example_pillow example_env [''  ''] 8 12 250 ''transparent'' ''pad''
        example_world) \<noteq> Inl NoAssetsResolved_flags"
proof -
  have n: "normalize_stamp_codes [''''] = []" "normalize_flag_codes [''  ''] = []"
    by code_simp+
  have r: "stamp_resolves example_pillow example_env (blobs example_world) '''' = False"
    "flag_resolves example_pillow example_env (blobs example_world) 250 ''pad'' ''  '' = False"
    by code_simp+
  have d: "InvalidInput \<noteq> NoAssetsResolved_stamps" "InvalidInput \<noteq> NoAssetsResolved_flags"
    by (simp_all add: InvalidInput_def NoAssetsResolved_stamps_def NoAssetsResolved_flags_def)
  show ?thesis
    using compose_passport_stamps_empty [OF n(1), of example_pillow example_env example_world]
      build_flag_grid_empty [OF n(2), of example_pillow example_env 8 12 250 "''transparent''"
        "''pad''" example_world] d
    by (simp add: r)
qed

end
